theory Spec2Isabelle
  imports Main "HOL-Library.Word"
begin

section \<open>Errors, classes, types and values\<close>

text \<open>
  The primitives of \<^verbatim>\<open>myia/prim/py_implementations.py\<close> are ordinary Python
  functions. Every exception they can raise is a value of \<open>pyerr\<close>, and a primitive
  returns \<open>pyerr + 'a\<close>, with \<open>Inl\<close> for the exception.
\<close>

datatype pyerr =
    TypeError | IndexError | KeyError | AttributeError | ValueError
  | AssertionError | ZeroDivisionError | OverflowError | AxisError
  | HostError nat

text \<open>
  Python classes the code inspects with \<^verbatim>\<open>isinstance\<close> or \<^verbatim>\<open>type(x)\<close>: the
  classes of \<^verbatim>\<open>myia.dtype\<close>, the builtin classes and the classes of host objects.
\<close>

datatype pyclass =
    C_Bool | C_Int | C_Float | C_Tuple | C_List | C_External
  | C_type | C_bool | C_int | C_float | C_tuple | C_list | C_str
  | C_ndarray | C_function | C_user string

text \<open>
  Modelled from the spec: the module \<^verbatim>\<open>myia.dtype\<close> is not part of the sources.
  A type is a tagged variant compared structurally; \<open>TypeOfType\<close> stands for the
  class \<^verbatim>\<open>types.Type\<close> itself, which \<^verbatim>\<open>typeof\<close> returns for a type.
\<close>

datatype ty =
    TBool | TInt nat | TFloat nat | TTuple "ty list" | TList ty
  | TExternal pyclass | TypeOfType

text \<open>
  A value is the content of a Python object. Python integers are unbounded
  (\<open>int\<close>); a float is carried as its IEEE-754 bit pattern and its arithmetic is left
  to the host; an array is its shape with its elements in row-major order; an
  instance of a class is its class name with its attributes; a function object is
  its code, which is opaque, with its attributes (\<open>VFun\<close>), or a closure built by
  \<^verbatim>\<open>partial\<close>.
\<close>

datatype val =
    VType ty
  | VClass pyclass
  | VBool bool
  | VInt int
  | VFloat "64 word"
  | VStr string
  | VTuple "val list"
  | VList "val list"
  | VArray "nat list" "val list"
  | VObj string "(string \<times> val) list"
  | VFun nat "(string \<times> val) list"
  | VPartial val "val list"

type_synonym 'a result = "pyerr + 'a"

definition bind_err :: "'a result \<Rightarrow> ('a \<Rightarrow> 'b result) \<Rightarrow> 'b result" where
  "bind_err r f = (case r of Inl e \<Rightarrow> Inl e | Inr v \<Rightarrow> f v)"

text \<open>\<open>mapM_err f xs\<close> applies \<open>f\<close> from left to right and stops at the first exception.\<close>

fun mapM_err :: "('a \<Rightarrow> 'b result) \<Rightarrow> 'a list \<Rightarrow> 'b list result" where
  "mapM_err f [] = Inr []"
| "mapM_err f (x # xs) =
     (case f x of
        Inl e \<Rightarrow> Inl e
      | Inr y \<Rightarrow> (case mapM_err f xs of Inl e \<Rightarrow> Inl e | Inr ys \<Rightarrow> Inr (y # ys)))"

section \<open>The Python operations the primitives call\<close>

text \<open>
  The operators are Python's own. On integers (booleans included: \<^verbatim>\<open>bool\<close> is a
  subclass of \<^verbatim>\<open>int\<close>) they are computed here; on floats, arrays and other host
  objects they are the host's, a parameter of the model.
\<close>

datatype binop = Add | Sub | Mul | Div | Mod | Pow | Eq | Lt | Gt | Ne | Le | Ge

record host =
  h_binop :: "binop \<Rightarrow> val \<Rightarrow> val \<Rightarrow> val result"
  h_neg :: "val \<Rightarrow> val result"
  h_truth :: "val \<Rightarrow> bool result"
  h_getitem :: "val \<Rightarrow> val \<Rightarrow> val result"
  h_tail :: "val \<Rightarrow> val result"
  h_setitem :: "val \<Rightarrow> val \<Rightarrow> val \<Rightarrow> val result"
  h_getattr :: "val \<Rightarrow> string \<Rightarrow> val result"
  h_setattr :: "val \<Rightarrow> string \<Rightarrow> val \<Rightarrow> val result"
  h_len :: "val \<Rightarrow> nat result"
  h_iter :: "val \<Rightarrow> val list result"
  h_call :: "val \<Rightarrow> val list \<Rightarrow> val result"
  np_asanyarray :: "val \<Rightarrow> val result"
  np_store :: "val \<Rightarrow> val \<Rightarrow> val result"
  np_broadcast_to :: "val \<Rightarrow> val \<Rightarrow> val result"
  np_reshape :: "val \<Rightarrow> val \<Rightarrow> val result"
  np_dot :: "val \<Rightarrow> val \<Rightarrow> val result"

fun as_int :: "val \<Rightarrow> int option" where
  "as_int (VInt i) = Some i"
| "as_int (VBool b) = Some (if b then 1 else 0)"
| "as_int _ = None"

fun int_binop :: "binop \<Rightarrow> int \<Rightarrow> int \<Rightarrow> val result option" where
  "int_binop Add a b = Some (Inr (VInt (a + b)))"
| "int_binop Sub a b = Some (Inr (VInt (a - b)))"
| "int_binop Mul a b = Some (Inr (VInt (a * b)))"
| "int_binop Div a b = (if b = 0 then Some (Inl ZeroDivisionError) else None)"
| "int_binop Mod a b = Some (if b = 0 then Inl ZeroDivisionError else Inr (VInt (a mod b)))"
| "int_binop Pow a b = (if 0 \<le> b then Some (Inr (VInt (a ^ nat b))) else None)"
| "int_binop Eq a b = Some (Inr (VBool (a = b)))"
| "int_binop Lt a b = Some (Inr (VBool (a < b)))"
| "int_binop Gt a b = Some (Inr (VBool (a > b)))"
| "int_binop Ne a b = Some (Inr (VBool (a \<noteq> b)))"
| "int_binop Le a b = Some (Inr (VBool (a \<le> b)))"
| "int_binop Ge a b = Some (Inr (VBool (a \<ge> b)))"

text \<open>
  \<open>py_binop h op x y\<close> is Python's \<^verbatim>\<open>x op y\<close>: integer arithmetic where both
  operands are integers and the result is one (true division and negative powers give
  floats), concatenation for \<^verbatim>\<open>+\<close> on two tuples or two lists, the host's operator
  otherwise.
\<close>

definition py_binop :: "host \<Rightarrow> binop \<Rightarrow> val \<Rightarrow> val \<Rightarrow> val result" where
  "py_binop h opr x y =
     (case (as_int x, as_int y) of
        (Some a, Some b) \<Rightarrow>
          (case int_binop opr a b of Some r \<Rightarrow> r | None \<Rightarrow> h_binop h opr x y)
      | _ \<Rightarrow>
          (case (opr, x, y) of
             (Add, VTuple xs, VTuple ys) \<Rightarrow> Inr (VTuple (xs @ ys))
           | (Add, VList xs, VList ys) \<Rightarrow> Inr (VList (xs @ ys))
           | _ \<Rightarrow> h_binop h opr x y))"

text \<open>Python's unary minus.\<close>

definition py_neg :: "host \<Rightarrow> val \<Rightarrow> val result" where
  "py_neg h x = (case as_int x of Some a \<Rightarrow> Inr (VInt (- a)) | None \<Rightarrow> h_neg h x)"

section \<open>Scalar primitives\<close>

text \<open>
  \<^verbatim>\<open>_assert_scalar(*args)\<close>: each argument, in order, is an array of shape \<^verbatim>\<open>()\<close> or
  an \<^verbatim>\<open>int\<close> or a \<^verbatim>\<open>float\<close>; anything else raises \<^verbatim>\<open>TypeError\<close>.
\<close>

fun is_int_or_float :: "val \<Rightarrow> bool" where
  "is_int_or_float (VInt _) = True"
| "is_int_or_float (VBool _) = True"
| "is_int_or_float (VFloat _) = True"
| "is_int_or_float _ = False"

fun assert_scalar :: "val list \<Rightarrow> unit result" where
  "assert_scalar [] = Inr ()"
| "assert_scalar (VArray shp d # args) =
     (if shp \<noteq> [] then Inl TypeError else assert_scalar args)"
| "assert_scalar (x # args) =
     (if \<not> is_int_or_float x then Inl TypeError else assert_scalar args)"

definition scalar_add :: "host \<Rightarrow> val \<Rightarrow> val \<Rightarrow> val result" where
  "scalar_add h x y = bind_err (assert_scalar [x, y]) (\<lambda>_. py_binop h Add x y)"

definition scalar_sub :: "host \<Rightarrow> val \<Rightarrow> val \<Rightarrow> val result" where
  "scalar_sub h x y = bind_err (assert_scalar [x, y]) (\<lambda>_. py_binop h Sub x y)"

definition scalar_mul :: "host \<Rightarrow> val \<Rightarrow> val \<Rightarrow> val result" where
  "scalar_mul h x y = bind_err (assert_scalar [x, y]) (\<lambda>_. py_binop h Mul x y)"

definition scalar_div :: "host \<Rightarrow> val \<Rightarrow> val \<Rightarrow> val result" where
  "scalar_div h x y = bind_err (assert_scalar [x, y]) (\<lambda>_. py_binop h Div x y)"

definition scalar_mod :: "host \<Rightarrow> val \<Rightarrow> val \<Rightarrow> val result" where
  "scalar_mod h x y = bind_err (assert_scalar [x, y]) (\<lambda>_. py_binop h Mod x y)"

definition scalar_pow :: "host \<Rightarrow> val \<Rightarrow> val \<Rightarrow> val result" where
  "scalar_pow h x y = bind_err (assert_scalar [x, y]) (\<lambda>_. py_binop h Pow x y)"

definition scalar_uadd :: "val \<Rightarrow> val result" where
  "scalar_uadd x = bind_err (assert_scalar [x]) (\<lambda>_. Inr x)"

definition scalar_usub :: "host \<Rightarrow> val \<Rightarrow> val result" where
  "scalar_usub h x = bind_err (assert_scalar [x]) (\<lambda>_. py_neg h x)"

definition scalar_eq :: "host \<Rightarrow> val \<Rightarrow> val \<Rightarrow> val result" where
  "scalar_eq h x y = bind_err (assert_scalar [x, y]) (\<lambda>_. py_binop h Eq x y)"

definition scalar_lt :: "host \<Rightarrow> val \<Rightarrow> val \<Rightarrow> val result" where
  "scalar_lt h x y = bind_err (assert_scalar [x, y]) (\<lambda>_. py_binop h Lt x y)"

definition scalar_gt :: "host \<Rightarrow> val \<Rightarrow> val \<Rightarrow> val result" where
  "scalar_gt h x y = bind_err (assert_scalar [x, y]) (\<lambda>_. py_binop h Gt x y)"

definition scalar_ne :: "host \<Rightarrow> val \<Rightarrow> val \<Rightarrow> val result" where
  "scalar_ne h x y = bind_err (assert_scalar [x, y]) (\<lambda>_. py_binop h Ne x y)"

definition scalar_le :: "host \<Rightarrow> val \<Rightarrow> val \<Rightarrow> val result" where
  "scalar_le h x y = bind_err (assert_scalar [x, y]) (\<lambda>_. py_binop h Le x y)"

definition scalar_ge :: "host \<Rightarrow> val \<Rightarrow> val \<Rightarrow> val result" where
  "scalar_ge h x y = bind_err (assert_scalar [x, y]) (\<lambda>_. py_binop h Ge x y)"

text \<open>\<^verbatim>\<open>bool_not\<close> asserts that its argument is exactly \<^verbatim>\<open>True\<close> or \<^verbatim>\<open>False\<close>.\<close>

definition bool_not :: "val \<Rightarrow> val result" where
  "bool_not x = (case x of VBool b \<Rightarrow> Inr (VBool (\<not> b)) | _ \<Rightarrow> Inl AssertionError)"

section \<open>Structural type inference\<close>

text \<open>\<^verbatim>\<open>type(x)\<close>, the class of a value.\<close>

fun py_type :: "val \<Rightarrow> pyclass" where
  "py_type (VType TBool) = C_Bool"
| "py_type (VType (TInt _)) = C_Int"
| "py_type (VType (TFloat _)) = C_Float"
| "py_type (VType (TTuple _)) = C_Tuple"
| "py_type (VType (TList _)) = C_List"
| "py_type (VType (TExternal _)) = C_External"
| "py_type (VType TypeOfType) = C_type"
| "py_type (VClass _) = C_type"
| "py_type (VBool _) = C_bool"
| "py_type (VInt _) = C_int"
| "py_type (VFloat _) = C_float"
| "py_type (VStr _) = C_str"
| "py_type (VTuple _) = C_tuple"
| "py_type (VList _) = C_list"
| "py_type (VArray _ _) = C_ndarray"
| "py_type (VObj c _) = C_user c"
| "py_type (VFun _ _) = C_function"
| "py_type (VPartial _ _) = C_function"

text \<open>
  \<open>sequence_err\<close> forces a Python iterator of results from left to right: the first
  exception is the one raised.
\<close>

fun sequence_err :: "'a result list \<Rightarrow> 'a list result" where
  "sequence_err [] = Inr []"
| "sequence_err (r # rs) =
     (case r of
        Inl e \<Rightarrow> Inl e
      | Inr y \<Rightarrow> (case sequence_err rs of Inl e \<Rightarrow> Inl e | Inr ys \<Rightarrow> Inr (y # ys)))"

text \<open>
  \<^verbatim>\<open>typeof(x)\<close>, with the branches in the order of the source: a type or a class,
  a boolean (before the integers, which include it), an integer, a float, a tuple, a
  list with \<^verbatim>\<open>len(x) > 0\<close>, and everything else, the empty list included.
\<close>

fun typeof :: "val \<Rightarrow> ty result" where
  "typeof (VType t) = Inr TypeOfType"
| "typeof (VClass c) = Inr TypeOfType"
| "typeof (VBool b) = Inr TBool"
| "typeof (VInt i) = Inr (TInt 64)"
| "typeof (VFloat f) = Inr (TFloat 64)"
| "typeof (VTuple xs) =
     (case sequence_err (map typeof xs) of
        Inl e \<Rightarrow> Inl e
      | Inr ts \<Rightarrow> Inr (TTuple ts))"
| "typeof (VList xs) =
     (if length xs > 0 then
        (case sequence_err (map typeof xs) of
           Inl e \<Rightarrow> Inl e
         | Inr ts \<Rightarrow>
             (let type0 = hd ts; rest = tl ts in
              if list_ex (\<lambda>t. t \<noteq> type0) rest then Inl TypeError
              else Inr (TList type0)))
      else Inr (TExternal (py_type (VList xs))))"
| "typeof x = Inr (TExternal (py_type x))"

text \<open>
  Modelled from the spec: the classes of \<^verbatim>\<open>myia.dtype\<close> and which types are their
  instances (the class hierarchy is not part of the sources). \<open>VType TypeOfType\<close> is the
  base class \<^verbatim>\<open>types.Type\<close>, of which every type is an instance.
\<close>

fun is_type_class :: "val \<Rightarrow> bool" where
  "is_type_class (VType TypeOfType) = True"
| "is_type_class (VClass c) = (c \<in> {C_Bool, C_Int, C_Float, C_Tuple, C_List, C_External})"
| "is_type_class _ = False"

fun isinstance_ty :: "ty \<Rightarrow> val \<Rightarrow> bool" where
  "isinstance_ty TypeOfType model = False"
| "isinstance_ty t (VType TypeOfType) = True"
| "isinstance_ty t (VClass c) = (py_type (VType t) = c)"
| "isinstance_ty t model = False"

definition hastype_helper :: "ty \<Rightarrow> val \<Rightarrow> bool" where
  "hastype_helper t model =
     (if VType t = model then True
      else if is_type_class model then isinstance_ty t model
      else False)"

definition hastype :: "val \<Rightarrow> val \<Rightarrow> val result" where
  "hastype x t = bind_err (typeof x) (\<lambda>tx. Inr (VBool (hastype_helper tx t)))"

section \<open>Tuples, sequences and iterators\<close>

text \<open>
  Python's \<^verbatim>\<open>bool(x)\<close>, \<^verbatim>\<open>len(x)\<close>, iteration over \<^verbatim>\<open>x\<close>, \<^verbatim>\<open>x[i]\<close> and
  \<^verbatim>\<open>x[1:]\<close>, computed for tuples and lists (strings where it is plain), the host's
  otherwise. An index \<open>i\<close> of a sequence of length \<open>n\<close> is in range when
  \<open>- n \<le> i < n\<close>; a negative one counts from the end.
\<close>

definition py_truth :: "host \<Rightarrow> val \<Rightarrow> bool result" where
  "py_truth h v =
     (case v of VBool b \<Rightarrow> Inr b | VInt i \<Rightarrow> Inr (i \<noteq> 0) | _ \<Rightarrow> h_truth h v)"

definition py_len :: "host \<Rightarrow> val \<Rightarrow> nat result" where
  "py_len h v =
     (case v of
        VTuple xs \<Rightarrow> Inr (length xs)
      | VList xs \<Rightarrow> Inr (length xs)
      | VStr cs \<Rightarrow> Inr (length cs)
      | VArray shp d \<Rightarrow> (if shp = [] then Inl TypeError else Inr (hd shp))
      | _ \<Rightarrow> h_len h v)"

definition py_iterate :: "host \<Rightarrow> val \<Rightarrow> val list result" where
  "py_iterate h v =
     (case v of
        VTuple xs \<Rightarrow> Inr xs
      | VList xs \<Rightarrow> Inr xs
      | VInt i \<Rightarrow> Inl TypeError
      | VBool b \<Rightarrow> Inl TypeError
      | VFloat f \<Rightarrow> Inl TypeError
      | _ \<Rightarrow> h_iter h v)"

definition seq_getitem :: "val list \<Rightarrow> int \<Rightarrow> val result" where
  "seq_getitem xs i =
     (let n = int (length xs) in
      if - n \<le> i \<and> i < n then Inr (xs ! nat (if i < 0 then i + n else i))
      else Inl IndexError)"

definition py_getitem :: "host \<Rightarrow> val \<Rightarrow> val \<Rightarrow> val result" where
  "py_getitem h data item =
     (case (data, as_int item) of
        (VTuple xs, Some i) \<Rightarrow> seq_getitem xs i
      | (VList xs, Some i) \<Rightarrow> seq_getitem xs i
      | _ \<Rightarrow> h_getitem h data item)"

definition py_tail :: "host \<Rightarrow> val \<Rightarrow> val result" where
  "py_tail h data =
     (case data of
        VTuple xs \<Rightarrow> Inr (VTuple (drop 1 xs))
      | VList xs \<Rightarrow> Inr (VList (drop 1 xs))
      | VStr cs \<Rightarrow> Inr (VStr (drop 1 cs))
      | _ \<Rightarrow> h_tail h data)"

text \<open>
  \<^verbatim>\<open>getattr(x, name)\<close>: the shape of an array, an attribute of an instance or of a
  function object.
\<close>

definition py_getattr :: "host \<Rightarrow> val \<Rightarrow> val \<Rightarrow> val result" where
  "py_getattr h x attr =
     (case attr of
        VStr name \<Rightarrow>
          (case x of
             VArray shp d \<Rightarrow>
               (if name = ''shape'' then Inr (VTuple (map (\<lambda>n. VInt (int n)) shp))
                else h_getattr h x name)
           | VObj c ats \<Rightarrow>
               (case map_of ats name of Some v \<Rightarrow> Inr v | None \<Rightarrow> h_getattr h x name)
           | VFun n ats \<Rightarrow>
               (case map_of ats name of Some v \<Rightarrow> Inr v | None \<Rightarrow> h_getattr h x name)
           | _ \<Rightarrow> h_getattr h x name)
      | _ \<Rightarrow> Inl TypeError)"

text \<open>
  Calling a callable: a closure built by \<^verbatim>\<open>partial\<close> calls its function on the
  bound arguments followed by the new ones; any other call is the host's.
\<close>

fun py_call :: "host \<Rightarrow> val \<Rightarrow> val list \<Rightarrow> val result" where
  "py_call h (VPartial f bound) others = py_call h f (bound @ others)"
| "py_call h f args = h_call h f args"

definition cons_tuple :: "host \<Rightarrow> val \<Rightarrow> val \<Rightarrow> val result" where
  "cons_tuple h head tail = py_binop h Add (VTuple [head]) tail"

definition head :: "host \<Rightarrow> val \<Rightarrow> val result" where
  "head h tup = py_getitem h tup (VInt 0)"

definition tail :: "host \<Rightarrow> val \<Rightarrow> val result" where
  "tail h tup = py_tail h tup"

definition getitem :: "host \<Rightarrow> val \<Rightarrow> val \<Rightarrow> val result" where
  "getitem h data item = py_getitem h data item"

definition shape :: "host \<Rightarrow> val \<Rightarrow> val result" where
  "shape h array = py_getattr h array (VStr ''shape'')"

definition prim_return :: "val \<Rightarrow> val" where
  "prim_return x = x"

definition partial :: "val \<Rightarrow> val list \<Rightarrow> val" where
  "partial f args = VPartial f args"

text \<open>
  The iterator protocol: an iterator is the pair \<^verbatim>\<open>(n, data)\<close> of a cursor and the
  sequence. \<^verbatim>\<open>n, data = it\<close> unpacks an iterable of exactly two elements.
\<close>

definition unpack2 :: "host \<Rightarrow> val \<Rightarrow> (val \<times> val) result" where
  "unpack2 h it =
     bind_err (py_iterate h it)
       (\<lambda>xs. case xs of [n, data] \<Rightarrow> Inr (n, data) | _ \<Rightarrow> Inl ValueError)"

definition prim_iter :: "val \<Rightarrow> val" where
  "prim_iter xs = VTuple [VInt 0, xs]"

definition prim_hasnext :: "host \<Rightarrow> val \<Rightarrow> val result" where
  "prim_hasnext h it =
     bind_err (unpack2 h it) (\<lambda>(n, data).
     bind_err (py_len h data) (\<lambda>l. py_binop h Lt n (VInt (int l))))"

definition prim_next :: "host \<Rightarrow> val \<Rightarrow> val result" where
  "prim_next h it =
     bind_err (unpack2 h it) (\<lambda>(n, data).
     bind_err (py_getitem h data n) (\<lambda>x.
     bind_err (py_binop h Add n (VInt 1)) (\<lambda>n'.
     Inr (VTuple [x, VTuple [n', data]]))))"

section \<open>Copy and assignment: \<^verbatim>\<open>setitem\<close> and \<^verbatim>\<open>setattr\<close>\<close>

text \<open>
  \<^verbatim>\<open>setitem\<close> and \<^verbatim>\<open>setattr\<close> are the two primitives that assign in place, to a
  copy of their argument. To see what happens to the argument itself they are
  modelled over an object store: the object at address \<open>a\<close> has the content
  \<open>s ! a\<close>, a new object takes the next free address, and an assignment replaces the
  content at one address. The other primitives only read, and are functions of
  contents.

  \<^verbatim>\<open>copy(x)\<close> makes a new object with the same elements or attributes for a list, an
  array or an instance, and returns \<open>x\<close> itself for the kinds it takes as atomic:
  numbers, strings, tuples, but also functions and classes.
\<close>

type_synonym store = "val list"

fun is_mutable :: "val \<Rightarrow> bool" where
  "is_mutable (VList _) = True"
| "is_mutable (VArray _ _) = True"
| "is_mutable (VObj _ _) = True"
| "is_mutable _ = False"

definition copy :: "store \<Rightarrow> nat \<Rightarrow> nat \<times> store" where
  "copy s a = (if is_mutable (s ! a) then (length s, s @ [s ! a]) else (a, s))"

text \<open>
  \<^verbatim>\<open>data2[item] = value\<close>, in place at address \<open>a\<close>: on a list with an integer index
  here, on an array or an instance by the host's \<^verbatim>\<open>__setitem__\<close> (which gives the
  new content of the receiver); the immutable kinds do not support it.
\<close>

definition store_setitem :: "host \<Rightarrow> store \<Rightarrow> nat \<Rightarrow> val \<Rightarrow> val \<Rightarrow> store result" where
  "store_setitem h s a item v =
     (case (s ! a, as_int item) of
        (VList xs, Some i) \<Rightarrow>
          (let n = int (length xs) in
           if - n \<le> i \<and> i < n
           then Inr (s[a := VList (xs[nat (if i < 0 then i + n else i) := v])])
           else Inl IndexError)
      | (c, _) \<Rightarrow>
          (if is_mutable c
           then bind_err (h_setitem h c item v) (\<lambda>c'. Inr (s[a := c']))
           else Inl TypeError))"

text \<open>
  \<^verbatim>\<open>setattr(data2, attr, value)\<close> of Python, in place at address \<open>a\<close>: an instance
  and a function object keep their attributes in a dictionary; numbers, strings,
  tuples and lists have no attribute to set; on the other kinds (arrays, classes,
  closures, types) the assignment is the host's, which gives the new content of the
  receiver.
\<close>

fun attr_update :: "string \<Rightarrow> val \<Rightarrow> (string \<times> val) list \<Rightarrow> (string \<times> val) list" where
  "attr_update k v [] = [(k, v)]"
| "attr_update k v ((k', w) # ats) =
     (if k' = k then (k, v) # ats else (k', w) # attr_update k v ats)"

definition py_setattr :: "host \<Rightarrow> store \<Rightarrow> nat \<Rightarrow> val \<Rightarrow> val \<Rightarrow> store result" where
  "py_setattr h s a attr v =
     (case attr of
        VStr name \<Rightarrow>
          (case s ! a of
             VObj c ats \<Rightarrow> Inr (s[a := VObj c (attr_update name v ats)])
           | VFun n ats \<Rightarrow> Inr (s[a := VFun n (attr_update name v ats)])
           | VInt i \<Rightarrow> Inl AttributeError
           | VBool b \<Rightarrow> Inl AttributeError
           | VFloat f \<Rightarrow> Inl AttributeError
           | VStr cs \<Rightarrow> Inl AttributeError
           | VTuple xs \<Rightarrow> Inl AttributeError
           | VList xs \<Rightarrow> Inl AttributeError
           | c \<Rightarrow> bind_err (h_setattr h c name v) (\<lambda>c'. Inr (s[a := c'])))
      | _ \<Rightarrow> Inl TypeError)"

text \<open>
  \<^verbatim>\<open>setitem(data, item, value)\<close>. For a tuple, a new tuple is built from
  \<^verbatim>\<open>enumerate(data)\<close>, with \<open>value\<close> at every position \<open>i\<close> for which \<^verbatim>\<open>i == item\<close>
  holds; otherwise the copy of \<open>data\<close> is assigned to. The result is the address of
  the new object with the new store.
\<close>

definition setitem :: "host \<Rightarrow> store \<Rightarrow> nat \<Rightarrow> val \<Rightarrow> val \<Rightarrow> (nat \<times> store) result" where
  "setitem h s data item v =
     (case s ! data of
        VTuple xs \<Rightarrow>
          bind_err
            (mapM_err
               (\<lambda>(i, x).
                  bind_err (py_binop h Eq (VInt (int i)) item) (\<lambda>c.
                  bind_err (py_truth h c) (\<lambda>b. Inr (if b then v else x))))
               (enumerate 0 xs))
            (\<lambda>ys. Inr (length s, s @ [VTuple ys]))
      | _ \<Rightarrow>
          (let (data2, s1) = copy s data in
           bind_err (store_setitem h s1 data2 item v) (\<lambda>s2. Inr (data2, s2))))"

definition setattr :: "host \<Rightarrow> store \<Rightarrow> nat \<Rightarrow> val \<Rightarrow> val \<Rightarrow> (nat \<times> store) result" where
  "setattr h s data attr v =
     (let (data2, s1) = copy s data in
      bind_err (py_setattr h s1 data2 attr v) (\<lambda>s2. Inr (data2, s2)))"

text \<open>
  A primitive over the store, seen as a function of contents: the argument is the
  only object of the store, and the result is the content of the object returned.
\<close>

definition on_content :: "(store \<Rightarrow> nat \<Rightarrow> (nat \<times> store) result) \<Rightarrow> val \<Rightarrow> val result" where
  "on_content f data = bind_err (f [data] 0) (\<lambda>(r, s'). Inr (s' ! r))"

text \<open>
  \<^verbatim>\<open>_next(it)\<close> over the store, the iterator being the object at address \<open>it\<close>:
  \<^verbatim>\<open>n, data = it\<close> reads the object, \<^verbatim>\<open>data[n]\<close> and \<^verbatim>\<open>n + 1\<close> are computed, and the
  tuple returned is a new object. The function has no assignment to an object.
\<close>

definition store_next :: "host \<Rightarrow> store \<Rightarrow> nat \<Rightarrow> (nat \<times> store) result" where
  "store_next h s it =
     bind_err (unpack2 h (s ! it)) (\<lambda>(n, data).
     bind_err (py_getitem h data n) (\<lambda>x.
     bind_err (py_binop h Add n (VInt 1)) (\<lambda>n'.
     Inr (length s, s @ [VTuple [x, VTuple [n', data]]]))))"

section \<open>Arrays\<close>

text \<open>
  The \<^verbatim>\<open>numpy\<close> functions the array primitives are written with. An array of
  shape \<open>shp\<close> holds \<open>prod_list shp\<close> elements in row-major order, so that along
  axis \<open>a\<close> the element at position \<open>i\<close> of the lane \<open>(q, j)\<close> stands at
  \<open>q * n * inner + i * inner + j\<close>, where \<open>n = shp ! a\<close>, \<open>outer\<close> is the product of the
  dimensions before \<open>a\<close> and \<open>inner\<close> the product of those after it. The
  elements of an array are values of its element type. Storing a value into an
  array converts it to that type, which may change it or raise: the conversion is
  \<^verbatim>\<open>numpy\<close>'s, the parameter \<open>np_store\<close> of the host, where \<open>np_store h ary v\<close> is
  the element stored when \<open>v\<close> is assigned to an element of an array with the
  element type of \<open>ary\<close>.
\<close>

definition as_array :: "host \<Rightarrow> val \<Rightarrow> (nat list \<times> val list) result" where
  "as_array h v =
     (case v of
        VArray shp d \<Rightarrow> Inr (shp, d)
      | VInt i \<Rightarrow> Inr ([], [v])
      | VBool b \<Rightarrow> Inr ([], [v])
      | VFloat f \<Rightarrow> Inr ([], [v])
      | _ \<Rightarrow>
          bind_err (np_asanyarray h v)
            (\<lambda>w. case w of VArray shp d \<Rightarrow> Inr (shp, d) | _ \<Rightarrow> Inl TypeError))"

definition normalize_axis_index :: "val \<Rightarrow> nat \<Rightarrow> nat result" where
  "normalize_axis_index axis nd =
     (case as_int axis of
        None \<Rightarrow> Inl TypeError
      | Some a \<Rightarrow>
          if - int nd \<le> a \<and> a < int nd then Inr (nat (if a < 0 then a + int nd else a))
          else Inl AxisError)"

definition lanes :: "nat \<Rightarrow> nat \<Rightarrow> nat \<Rightarrow> 'a list \<Rightarrow> 'a list list" where
  "lanes outer n inner d =
     concat (map (\<lambda>q. map (\<lambda>j. map (\<lambda>i. d ! (q * n * inner + i * inner + j)) [0..<n])
                          [0..<inner])
                 [0..<outer])"

definition unlanes :: "nat \<Rightarrow> nat \<Rightarrow> nat \<Rightarrow> 'a list list \<Rightarrow> 'a list" where
  "unlanes outer m inner rs =
     concat (map (\<lambda>q. concat (map (\<lambda>k. map (\<lambda>j. rs ! (q * inner + j) ! k) [0..<inner])
                                  [0..<m]))
                 [0..<outer])"

text \<open>
  The calls of \<open>func1d\<close> after the first one: each result is stored into the buffer
  shaped by the first result (a result of another shape is refused here; \<^verbatim>\<open>numpy\<close>
  would broadcast a compatible one). The buffer has the element type of the first
  result; the results of \<^verbatim>\<open>array_map\<close> and \<^verbatim>\<open>array_scan\<close> all have the element
  type of the array, so that storing them changes nothing.
\<close>

fun later_lanes ::
  "host \<Rightarrow> (val \<Rightarrow> val result) \<Rightarrow> nat \<Rightarrow> nat list \<Rightarrow> val list list \<Rightarrow> val list list result"
where
  "later_lanes h func1d n rshp [] = Inr []"
| "later_lanes h func1d n rshp (l # ls) =
     bind_err (func1d (VArray [n] l)) (\<lambda>r.
     bind_err (as_array h r) (\<lambda>(shp, d).
     if shp \<noteq> rshp then Inl ValueError
     else bind_err (later_lanes h func1d n rshp ls) (\<lambda>ds. Inr (d # ds))))"

text \<open>
  \<^verbatim>\<open>np.apply_along_axis(func1d, axis, arr)\<close>: \<open>func1d\<close> is applied to every lane
  along \<open>axis\<close>, in row-major order of the other indices, and its results take the
  place of the lanes. There must be at least one lane.
\<close>

definition apply_along_axis :: "host \<Rightarrow> (val \<Rightarrow> val result) \<Rightarrow> val \<Rightarrow> val \<Rightarrow> val result" where
  "apply_along_axis h func1d axis arr =
     bind_err (as_array h arr) (\<lambda>(shp, d).
     bind_err (normalize_axis_index axis (length shp)) (\<lambda>a.
       let outer = prod_list (take a shp); n = shp ! a;
           inner = prod_list (drop (Suc a) shp)
       in
       (case lanes outer n inner d of
          [] \<Rightarrow> Inl ValueError
        | l0 # ls \<Rightarrow>
            bind_err (func1d (VArray [n] l0)) (\<lambda>r0.
            bind_err (as_array h r0) (\<lambda>(rshp, d0).
            bind_err (later_lanes h func1d n rshp ls) (\<lambda>ds.
              Inr (VArray (take a shp @ rshp @ drop (Suc a) shp)
                     (unlanes outer (prod_list rshp) inner (d0 # ds)))))))))"

text \<open>
  \<^verbatim>\<open>np.nditer\<close> over a lane gives, in order, one view of shape \<^verbatim>\<open>()\<close> for each
  element; it refuses an operand without elements. With a second operand \<^verbatim>\<open>None\<close>
  it allocates an output of the shape and the element type of the lane, and each
  \<^verbatim>\<open>y[...] = v\<close> stores \<open>v\<close> into it, converted.
\<close>

definition nditer :: "val \<Rightarrow> val list result" where
  "nditer ary =
     (case ary of
        VArray shp d \<Rightarrow> (if d = [] then Inl ValueError else Inr (map (\<lambda>e. VArray [] [e]) d))
      | _ \<Rightarrow> Inl TypeError)"

text \<open>
  The loop of \<^verbatim>\<open>array_map\<close>: \<^verbatim>\<open>for x, y in it: y[...] = fn(x)\<close>, where \<open>st\<close>
  stores into the output.
\<close>

definition map_loop ::
  "(val \<Rightarrow> val result) \<Rightarrow> (val \<Rightarrow> val result) \<Rightarrow> val list \<Rightarrow> val list result"
where
  "map_loop fn st xs = mapM_err (\<lambda>x. bind_err (fn x) st) xs"

text \<open>The local function \<^verbatim>\<open>f(ary)\<close> of \<^verbatim>\<open>array_map\<close>, applied to one lane.\<close>

definition array_map_f :: "host \<Rightarrow> (val \<Rightarrow> val result) \<Rightarrow> val \<Rightarrow> val result" where
  "array_map_f h fn ary =
     bind_err (nditer ary) (\<lambda>xs.
     bind_err (map_loop fn (np_store h ary) xs) (\<lambda>ys. Inr (VArray [length ys] ys)))"

definition array_map :: "host \<Rightarrow> (val \<Rightarrow> val result) \<Rightarrow> val \<Rightarrow> val result" where
  "array_map h fn array = apply_along_axis h (array_map_f h fn) (VInt 0) array"

text \<open>
  The loop of \<^verbatim>\<open>array_scan\<close>:
  \<^verbatim>\<open>val = init; for x, y in it: val = fn(val, x); y[...] = val\<close>.
  The accumulator \<open>val\<close> goes to the next step as \<open>fn\<close> returned it, and \<open>st\<close> stores
  it into the output; \<open>scan_loop fn st val xs\<close> is the list of the elements stored.
\<close>

fun scan_loop ::
  "(val \<Rightarrow> val \<Rightarrow> val result) \<Rightarrow> (val \<Rightarrow> val result) \<Rightarrow> val \<Rightarrow> val list \<Rightarrow> val list result"
where
  "scan_loop fn st v [] = Inr []"
| "scan_loop fn st v (x # xs) =
     bind_err (fn v x) (\<lambda>v'.
     bind_err (st v') (\<lambda>y.
     bind_err (scan_loop fn st v' xs) (\<lambda>ys. Inr (y # ys))))"

text \<open>The local function \<^verbatim>\<open>f(ary)\<close> of \<^verbatim>\<open>array_scan\<close>, applied to one lane.\<close>

definition array_scan_f ::
  "host \<Rightarrow> (val \<Rightarrow> val \<Rightarrow> val result) \<Rightarrow> val \<Rightarrow> val \<Rightarrow> val result"
where
  "array_scan_f h fn init ary =
     bind_err (nditer ary) (\<lambda>xs.
     bind_err (scan_loop fn (np_store h ary) init xs) (\<lambda>ys. Inr (VArray [length ys] ys)))"

definition array_scan ::
  "host \<Rightarrow> (val \<Rightarrow> val \<Rightarrow> val result) \<Rightarrow> val \<Rightarrow> val \<Rightarrow> val \<Rightarrow> val result"
where
  "array_scan h fn init array axis = apply_along_axis h (array_scan_f h fn init) axis array"

text \<open>
  The loop of \<^verbatim>\<open>array_reduce\<close>: \<^verbatim>\<open>val = init; for x in it: val = fn(val, x)\<close>.
\<close>

fun reduce_loop :: "(val \<Rightarrow> val \<Rightarrow> val result) \<Rightarrow> val \<Rightarrow> val list \<Rightarrow> val result" where
  "reduce_loop fn v [] = Inr v"
| "reduce_loop fn v (x # xs) = bind_err (fn v x) (\<lambda>v'. reduce_loop fn v' xs)"

text \<open>The local function \<^verbatim>\<open>f(ary)\<close> of \<^verbatim>\<open>array_reduce\<close>, applied to one lane.\<close>

definition array_reduce_f :: "(val \<Rightarrow> val \<Rightarrow> val result) \<Rightarrow> val \<Rightarrow> val \<Rightarrow> val result" where
  "array_reduce_f fn init ary = bind_err (nditer ary) (\<lambda>xs. reduce_loop fn init xs)"

definition array_reduce ::
  "host \<Rightarrow> (val \<Rightarrow> val \<Rightarrow> val result) \<Rightarrow> val \<Rightarrow> val \<Rightarrow> val \<Rightarrow> val result"
where
  "array_reduce h fn init array axis = apply_along_axis h (array_reduce_f fn init) axis array"

definition distribute :: "host \<Rightarrow> val \<Rightarrow> val \<Rightarrow> val result" where
  "distribute h v shp = np_broadcast_to h v shp"

definition reshape :: "host \<Rightarrow> val \<Rightarrow> val \<Rightarrow> val result" where
  "reshape h v shp = np_reshape h v shp"

definition dot :: "host \<Rightarrow> val \<Rightarrow> val \<Rightarrow> val result" where
  "dot h a b = np_dot h a b"

definition list_map :: "host \<Rightarrow> (val \<Rightarrow> val result) \<Rightarrow> val \<Rightarrow> val result" where
  "list_map h f xs =
     bind_err (py_iterate h xs) (\<lambda>es.
     bind_err (mapM_err f es) (\<lambda>ys. Inr (VList ys)))"

section \<open>The VM-coupled implementations\<close>

text \<open>
  The VM is consumed through two hooks: \<^verbatim>\<open>vm.call(fn, args)\<close> runs a callable of
  the VM, \<^verbatim>\<open>vm.convert(x)\<close> lifts a Python value into the VM.
\<close>

record vm =
  vm_call :: "val \<Rightarrow> val list \<Rightarrow> val result"
  vm_convert :: "val \<Rightarrow> val result"

definition vm_getitem :: "host \<Rightarrow> vm \<Rightarrow> val \<Rightarrow> val \<Rightarrow> val result" where
  "vm_getitem h vm data item = bind_err (py_getitem h data item) (vm_convert vm)"

definition vm_getattr :: "host \<Rightarrow> vm \<Rightarrow> val \<Rightarrow> val \<Rightarrow> val result" where
  "vm_getattr h vm data attr = bind_err (py_getattr h data attr) (vm_convert vm)"

definition array_map_vm :: "host \<Rightarrow> vm \<Rightarrow> val \<Rightarrow> val \<Rightarrow> val result" where
  "array_map_vm h vm fn array = array_map h (\<lambda>x. vm_call vm fn [x]) array"

definition array_scan_vm :: "host \<Rightarrow> vm \<Rightarrow> val \<Rightarrow> val \<Rightarrow> val \<Rightarrow> val \<Rightarrow> val result" where
  "array_scan_vm h vm fn init array axis =
     array_scan h (\<lambda>a b. vm_call vm fn [a, b]) init array axis"

definition array_reduce_vm :: "host \<Rightarrow> vm \<Rightarrow> val \<Rightarrow> val \<Rightarrow> val \<Rightarrow> val \<Rightarrow> val result" where
  "array_reduce_vm h vm fn init array axis =
     array_reduce h (\<lambda>a b. vm_call vm fn [a, b]) init array axis"

definition list_map_vm :: "host \<Rightarrow> vm \<Rightarrow> val \<Rightarrow> val \<Rightarrow> val result" where
  "list_map_vm h vm f xs =
     bind_err (py_iterate h xs) (\<lambda>es.
     bind_err (mapM_err (\<lambda>x. vm_call vm f [x]) es) (\<lambda>ys. Inr (VList ys)))"

definition resolve_vm :: "host \<Rightarrow> vm \<Rightarrow> val \<Rightarrow> val \<Rightarrow> val result" where
  "resolve_vm h vm data item = bind_err (py_getitem h data item) (vm_convert vm)"

section \<open>The two registries\<close>

text \<open>
  Modelled from the spec: \<^verbatim>\<open>myia.prim.ops\<close> (the primitives) and
  \<^verbatim>\<open>myia.utils.Registry\<close> are not part of the sources. A registry is a mapping from
  primitives to implementations, and registering stores the implementation under the
  primitive.
\<close>

datatype primitive =
    P_scalar_add | P_scalar_sub | P_scalar_mul | P_scalar_div | P_scalar_mod
  | P_scalar_pow | P_scalar_uadd | P_scalar_usub | P_scalar_eq | P_scalar_lt
  | P_scalar_gt | P_scalar_ne | P_scalar_le | P_scalar_ge | P_bool_not | P_typeof
  | P_hastype | P_cons_tuple | P_head | P_tail | P_getitem | P_setitem | P_getattr
  | P_setattr | P_shape | P_array_map | P_array_scan | P_array_reduce | P_distribute
  | P_reshape | P_dot | P_return | P_list_map | P_resolve | P_partial | P_iter
  | P_hasnext | P_next

type_synonym py_impl = "val list \<Rightarrow> val result"
type_synonym vm_impl = "vm \<Rightarrow> val list \<Rightarrow> val result"

record registries =
  py_implementations :: "primitive \<rightharpoonup> py_impl"
  vm_implementations :: "primitive \<rightharpoonup> vm_impl"

definition py_register :: "primitive \<Rightarrow> py_impl \<Rightarrow> registries \<Rightarrow> registries" where
  "py_register prim fn R = R\<lparr>py_implementations := (py_implementations R)(prim \<mapsto> fn)\<rparr>"

definition vm_register :: "primitive \<Rightarrow> vm_impl \<Rightarrow> registries \<Rightarrow> registries" where
  "vm_register prim fn R = R\<lparr>vm_implementations := (vm_implementations R)(prim \<mapsto> fn)\<rparr>"

text \<open>
  \<^verbatim>\<open>register(prim)\<close>: the same implementation for the VM, which drops the VM, and
  for pure Python.
\<close>

definition register :: "primitive \<Rightarrow> py_impl \<Rightarrow> registries \<Rightarrow> registries" where
  "register prim fn R = py_register prim fn (vm_register prim (\<lambda>vm args. fn args) R)"

text \<open>
  A Python function of fixed arity called as \<^verbatim>\<open>fn(*args)\<close>: another number of
  arguments raises \<^verbatim>\<open>TypeError\<close>.
\<close>

definition star1 :: "(val \<Rightarrow> val result) \<Rightarrow> py_impl" where
  "star1 f args = (case args of [x] \<Rightarrow> f x | _ \<Rightarrow> Inl TypeError)"

definition star2 :: "(val \<Rightarrow> val \<Rightarrow> val result) \<Rightarrow> py_impl" where
  "star2 f args = (case args of [x, y] \<Rightarrow> f x y | _ \<Rightarrow> Inl TypeError)"

definition star3 :: "(val \<Rightarrow> val \<Rightarrow> val \<Rightarrow> val result) \<Rightarrow> py_impl" where
  "star3 f args = (case args of [x, y, z] \<Rightarrow> f x y z | _ \<Rightarrow> Inl TypeError)"

definition star4 :: "(val \<Rightarrow> val \<Rightarrow> val \<Rightarrow> val \<Rightarrow> val result) \<Rightarrow> py_impl" where
  "star4 f args = (case args of [x, y, z, w] \<Rightarrow> f x y z w | _ \<Rightarrow> Inl TypeError)"

text \<open>The decorators of the module, in the order in which the module applies them.\<close>

datatype registration =
    Register primitive py_impl
  | Py_register primitive py_impl
  | Vm_register primitive vm_impl

fun run_registration :: "registration \<Rightarrow> registries \<Rightarrow> registries" where
  "run_registration (Register prim fn) R = register prim fn R"
| "run_registration (Py_register prim fn) R = py_register prim fn R"
| "run_registration (Vm_register prim fn) R = vm_register prim fn R"

definition module_registrations :: "host \<Rightarrow> registration list" where
  "module_registrations h =
     [Register P_scalar_add (star2 (scalar_add h)),
      Register P_scalar_sub (star2 (scalar_sub h)),
      Register P_scalar_mul (star2 (scalar_mul h)),
      Register P_scalar_div (star2 (scalar_div h)),
      Register P_scalar_mod (star2 (scalar_mod h)),
      Register P_scalar_pow (star2 (scalar_pow h)),
      Register P_scalar_uadd (star1 scalar_uadd),
      Register P_scalar_usub (star1 (scalar_usub h)),
      Register P_scalar_eq (star2 (scalar_eq h)),
      Register P_scalar_lt (star2 (scalar_lt h)),
      Register P_scalar_gt (star2 (scalar_gt h)),
      Register P_scalar_ne (star2 (scalar_ne h)),
      Register P_scalar_le (star2 (scalar_le h)),
      Register P_scalar_ge (star2 (scalar_ge h)),
      Register P_bool_not (star1 bool_not),
      Register P_typeof (star1 (\<lambda>x. bind_err (typeof x) (\<lambda>t. Inr (VType t)))),
      Register P_hastype (star2 hastype),
      Register P_cons_tuple (star2 (cons_tuple h)),
      Register P_head (star1 (head h)),
      Register P_tail (star1 (tail h)),
      Py_register P_getitem (star2 (getitem h)),
      Vm_register P_getitem (\<lambda>vm. star2 (vm_getitem h vm)),
      Register P_setitem
        (star3 (\<lambda>data item v. on_content (\<lambda>s a. setitem h s a item v) data)),
      Vm_register P_getattr (\<lambda>vm. star2 (vm_getattr h vm)),
      Register P_setattr
        (star3 (\<lambda>data attr v. on_content (\<lambda>s a. setattr h s a attr v) data)),
      Register P_shape (star1 (shape h)),
      Py_register P_array_map (star2 (\<lambda>fn. array_map h (\<lambda>x. py_call h fn [x]))),
      Vm_register P_array_map (\<lambda>vm. star2 (array_map_vm h vm)),
      Py_register P_array_scan (star4 (\<lambda>fn. array_scan h (\<lambda>a b. py_call h fn [a, b]))),
      Vm_register P_array_scan (\<lambda>vm. star4 (array_scan_vm h vm)),
      Py_register P_array_reduce
        (star4 (\<lambda>fn. array_reduce h (\<lambda>a b. py_call h fn [a, b]))),
      Vm_register P_array_reduce (\<lambda>vm. star4 (array_reduce_vm h vm)),
      Register P_distribute (star2 (distribute h)),
      Register P_reshape (star2 (reshape h)),
      Register P_dot (star2 (dot h)),
      Register P_return (star1 (\<lambda>x. Inr (prim_return x))),
      Py_register P_list_map (star2 (\<lambda>f. list_map h (\<lambda>x. py_call h f [x]))),
      Vm_register P_list_map (\<lambda>vm. star2 (list_map_vm h vm)),
      Vm_register P_resolve (\<lambda>vm. star2 (resolve_vm h vm)),
      Py_register P_partial
        (\<lambda>args. case args of [] \<Rightarrow> Inl TypeError | f # bound \<Rightarrow> Inr (partial f bound)),
      Register P_iter (star1 (\<lambda>xs. Inr (prim_iter xs))),
      Register P_hasnext (star1 (prim_hasnext h)),
      Register P_next (star1 (prim_next h))]"

definition module_registries :: "host \<Rightarrow> registries" where
  "module_registries h =
     fold run_registration (module_registrations h)
       \<lparr>py_implementations = Map.empty, vm_implementations = Map.empty\<rparr>"

section \<open>Notions used in the statements\<close>

text \<open>
  A host that raises on every call: the properties that hold for it are those that
  need nothing from the host.
\<close>

definition null_host :: host where
  "null_host =
     \<lparr>h_binop = (\<lambda>_ _ _. Inl (HostError 0)), h_neg = (\<lambda>_. Inl (HostError 0)),
      h_truth = (\<lambda>_. Inl (HostError 0)), h_getitem = (\<lambda>_ _. Inl (HostError 0)),
      h_tail = (\<lambda>_. Inl (HostError 0)), h_setitem = (\<lambda>_ _ _. Inl (HostError 0)),
      h_getattr = (\<lambda>_ _. Inl (HostError 0)), h_setattr = (\<lambda>_ _ _. Inl (HostError 0)),
      h_len = (\<lambda>_. Inl (HostError 0)),
      h_iter = (\<lambda>_. Inl (HostError 0)), h_call = (\<lambda>_ _. Inl (HostError 0)),
      np_asanyarray = (\<lambda>_. Inl (HostError 0)), np_store = (\<lambda>_ _. Inl (HostError 0)),
      np_broadcast_to = (\<lambda>_ _. Inl (HostError 0)),
      np_reshape = (\<lambda>_ _. Inl (HostError 0)), np_dot = (\<lambda>_ _. Inl (HostError 0))\<rparr>"

text \<open>
  The scalars \<^verbatim>\<open>_assert_scalar\<close> is written for: Python integers (booleans
  included), floats and arrays of shape \<^verbatim>\<open>()\<close>; and the arrays of rank at least one.
\<close>

fun scalar_numeric :: "val \<Rightarrow> bool" where
  "scalar_numeric (VInt _) = True"
| "scalar_numeric (VBool _) = True"
| "scalar_numeric (VFloat _) = True"
| "scalar_numeric (VArray shp _) = (shp = [])"
| "scalar_numeric _ = False"

fun array_rank_ge1 :: "val \<Rightarrow> bool" where
  "array_rank_ge1 (VArray shp _) = (shp \<noteq> [])"
| "array_rank_ge1 _ = False"

text \<open>The scalar primitives of two arguments and of one.\<close>

definition binary_scalar_prims :: "host \<Rightarrow> (val \<Rightarrow> val \<Rightarrow> val result) list" where
  "binary_scalar_prims h =
     [scalar_add h, scalar_sub h, scalar_mul h, scalar_div h, scalar_mod h, scalar_pow h,
      scalar_eq h, scalar_lt h, scalar_gt h, scalar_ne h, scalar_le h, scalar_ge h]"

definition unary_scalar_prims :: "host \<Rightarrow> (val \<Rightarrow> val result) list" where
  "unary_scalar_prims h = [scalar_uadd, scalar_usub h]"

text \<open>
  \<open>nexts h k it\<close> calls \<^verbatim>\<open>next\<close> \<open>k\<close> times, each call on the iterator the previous
  one returned, and gives the elements obtained with the last iterator.
\<close>

fun nexts :: "host \<Rightarrow> nat \<Rightarrow> val \<Rightarrow> (val list \<times> val) result" where
  "nexts h 0 it = Inr ([], it)"
| "nexts h (Suc k) it =
     bind_err (prim_next h it) (\<lambda>r.
       case r of
         VTuple [x, it'] \<Rightarrow> bind_err (nexts h k it') (\<lambda>(ys, it''). Inr (x # ys, it''))
       | _ \<Rightarrow> Inl ValueError)"

text \<open>A VM whose calls raise and whose conversion changes nothing.\<close>

definition null_vm :: vm where
  "null_vm = \<lparr>vm_call = (\<lambda>_ _. Inl (HostError 1)), vm_convert = (\<lambda>x. Inr x)\<rparr>"

text \<open>
  The primitives a list of registrations stores an implementation for, in the pure
  registry and in the registry of the VM.
\<close>

fun py_keys :: "registration list \<Rightarrow> primitive list" where
  "py_keys [] = []"
| "py_keys (Register p fn # rs) = p # py_keys rs"
| "py_keys (Py_register p fn # rs) = p # py_keys rs"
| "py_keys (Vm_register p fn # rs) = py_keys rs"

fun vm_keys :: "registration list \<Rightarrow> primitive list" where
  "vm_keys [] = []"
| "vm_keys (Register p fn # rs) = p # vm_keys rs"
| "vm_keys (Py_register p fn # rs) = vm_keys rs"
| "vm_keys (Vm_register p fn # rs) = p # vm_keys rs"

text \<open>
  Along axis \<open>a\<close> of an array of shape \<open>shp\<close>: the number of index tuples before
  the axis, the number after it, and the place of the element at position \<open>i\<close> of
  the lane \<open>(q, j)\<close>.
\<close>

definition outer_size :: "nat list \<Rightarrow> nat \<Rightarrow> nat" where
  "outer_size shp a = prod_list (take a shp)"

definition inner_size :: "nat list \<Rightarrow> nat \<Rightarrow> nat" where
  "inner_size shp a = prod_list (drop (Suc a) shp)"

definition flat_index :: "nat list \<Rightarrow> nat \<Rightarrow> nat \<Rightarrow> nat \<Rightarrow> nat \<Rightarrow> nat" where
  "flat_index shp a q i j = q * (shp ! a) * inner_size shp a + i * inner_size shp a + j"

text \<open>The lane \<open>(q, j)\<close> along axis \<open>a\<close>, as the array that \<open>func1d\<close> receives.\<close>

definition lane :: "nat list \<Rightarrow> nat \<Rightarrow> val list \<Rightarrow> nat \<Rightarrow> nat \<Rightarrow> val" where
  "lane shp a d q j = VArray [shp ! a] (map (\<lambda>i. d ! flat_index shp a q i j) [0..<shp ! a])"

text \<open>
  \<^verbatim>\<open>numpy\<close> on the integers: the sum of Python integers, arrays of shape \<^verbatim>\<open>()\<close> and
  \<^verbatim>\<open>numpy\<close> integers, when one of them is not a Python integer, is a \<^verbatim>\<open>numpy\<close>
  integer, an instance of \<^verbatim>\<open>numpy.int64\<close>, which is no Python \<^verbatim>\<open>int\<close>. Storing
  into an array of integers keeps an integer and truncates a float; of the floats
  only \<open>0.5\<close> is needed here.
\<close>

definition np_int64 :: "int \<Rightarrow> val" where
  "np_int64 i = VObj ''numpy.int64'' [(''real'', VInt i)]"

fun np_int_of :: "val \<Rightarrow> int option" where
  "np_int_of (VInt i) = Some i"
| "np_int_of (VBool b) = Some (if b then 1 else 0)"
| "np_int_of (VArray shp d) = (case (shp, d) of ([], [VInt i]) \<Rightarrow> Some i | _ \<Rightarrow> None)"
| "np_int_of (VObj c ats) =
     (if c = ''numpy.int64''
      then (case map_of ats ''real'' of Some (VInt i) \<Rightarrow> Some i | _ \<Rightarrow> None)
      else None)"
| "np_int_of _ = None"

definition float_half :: val where
  "float_half = VFloat 0x3FE0000000000000"

definition numpy_host :: host where
  "numpy_host =
     null_host
       \<lparr>h_binop :=
          (\<lambda>opr x y.
             case (opr, np_int_of x, np_int_of y) of
               (Add, Some a, Some b) \<Rightarrow>
                 if - (2 ^ 63) \<le> a + b \<and> a + b < 2 ^ 63 then Inr (np_int64 (a + b))
                 else Inl (HostError 0)
             | _ \<Rightarrow> Inl (HostError 0)),
        np_store :=
          (\<lambda>ary v.
             if v = float_half then Inr (VInt 0)
             else (case np_int_of v of Some i \<Rightarrow> Inr (VInt i) | None \<Rightarrow> Inl (HostError 0)))\<rparr>"

text \<open>The Python function \<^verbatim>\<open>lambda a, b: 0.5\<close>.\<close>

definition const_half :: "val \<Rightarrow> val \<Rightarrow> val result" where
  "const_half a b = Inr float_half"

section \<open>Properties\<close>

lemma bind_err_simps [simp]:
  "bind_err (Inl e) f = Inl e" "bind_err (Inr v) f = f v"
  by (simp_all add: bind_err_def)

subsection \<open>Scalar primitives\<close>

lemma assert_scalar_ok:
  "assert_scalar xs = Inr () \<longleftrightarrow> (\<forall>x \<in> set xs. scalar_numeric x)"
  by (induction xs rule: assert_scalar.induct) auto

lemma assert_scalar_rank:
  "\<exists>x \<in> set xs. array_rank_ge1 x \<Longrightarrow> assert_scalar xs = Inl TypeError"
  by (induction xs rule: assert_scalar.induct) auto

text \<open>
  C4. On scalar numeric arguments \<^verbatim>\<open>scalar_add(x, y)\<close> is Python's own \<^verbatim>\<open>x + y\<close>,
  which on integers is the sum; and each of the fourteen scalar primitives raises
  \<^verbatim>\<open>TypeError\<close> when an argument is an array of rank at least one.
\<close>

theorem scalar_primitives:
  "(scalar_numeric x \<and> scalar_numeric y \<longrightarrow> scalar_add h x y = py_binop h Add x y)
   \<and> scalar_add h (VInt a) (VInt b) = Inr (VInt (a + b))
   \<and> (array_rank_ge1 x \<or> array_rank_ge1 y \<longrightarrow>
        (\<forall>f \<in> set (binary_scalar_prims h). f x y = Inl TypeError))
   \<and> (array_rank_ge1 x \<longrightarrow> (\<forall>f \<in> set (unary_scalar_prims h). f x = Inl TypeError))"
proof (intro conjI impI)
  assume "scalar_numeric x \<and> scalar_numeric y"
  then have "assert_scalar [x, y] = Inr ()"
    by (simp add: assert_scalar_ok)
  then show "scalar_add h x y = py_binop h Add x y"
    by (simp add: scalar_add_def)
next
  show "scalar_add h (VInt a) (VInt b) = Inr (VInt (a + b))"
    by (simp add: scalar_add_def py_binop_def)
next
  assume "array_rank_ge1 x \<or> array_rank_ge1 y"
  then have "assert_scalar [x, y] = Inl TypeError"
    by (intro assert_scalar_rank) auto
  then show "\<forall>f \<in> set (binary_scalar_prims h). f x y = Inl TypeError"
    by (simp add: binary_scalar_prims_def scalar_add_def scalar_sub_def scalar_mul_def
        scalar_div_def scalar_mod_def scalar_pow_def scalar_eq_def scalar_lt_def
        scalar_gt_def scalar_ne_def scalar_le_def scalar_ge_def)
next
  assume "array_rank_ge1 x"
  then have "assert_scalar [x] = Inl TypeError"
    by (intro assert_scalar_rank) auto
  then show "\<forall>f \<in> set (unary_scalar_prims h). f x = Inl TypeError"
    by (simp add: unary_scalar_prims_def scalar_uadd_def scalar_usub_def)
qed

theorem scalar_primitives_witness:
  "scalar_add null_host (VInt 2) (VInt 3) = Inr (VInt 5)
   \<and> scalar_add null_host (VArray [] [VInt 2]) (VInt 3)
       = py_binop null_host Add (VArray [] [VInt 2]) (VInt 3)
   \<and> scalar_mul null_host (VArray [2] [VInt 1, VInt 2]) (VInt 3) = Inl TypeError
   \<and> scalar_usub null_host (VArray [2] [VInt 1, VInt 2]) = Inl TypeError"
  using scalar_primitives [of "VArray [] [VInt 2]" "VInt 3" null_host 2 3]
    scalar_primitives [of "VArray [2] [VInt 1, VInt 2]" "VInt 3" null_host 2 3]
  by (simp add: binary_scalar_prims_def unary_scalar_prims_def)

subsection \<open>Type inference on lists\<close>

lemma sequence_err_Inl:
  "sequence_err rs = Inl e \<Longrightarrow> Inl e \<in> set rs"
  by (induction rs) (auto split: sum.splits)

lemma typeof_error: "typeof v = Inl e \<Longrightarrow> e = TypeError"
proof (induction v arbitrary: e rule: typeof.induct)
  case (6 xs)
  then obtain e' where "sequence_err (map typeof xs) = Inl e'" and "e' = e"
    by (auto split: sum.splits)
  then have "Inl e \<in> set (map typeof xs)" using sequence_err_Inl by blast
  then obtain x where "x \<in> set xs" "typeof x = Inl e" by auto
  then show ?case using 6 by blast
next
  case (7 xs)
  show ?case
  proof (cases "sequence_err (map typeof xs)")
    case (Inl e')
    then have "e' = e" using 7(2) by (auto split: if_splits)
    then have "Inl e \<in> set (map typeof xs)" using Inl sequence_err_Inl by blast
    then obtain x where "x \<in> set xs" "typeof x = Inl e" by auto
    then show ?thesis using 7 by (cases "0 < length xs") auto
  next
    case (Inr ts)
    then show ?thesis using 7(2) by (auto simp: Let_def split: if_splits)
  qed
qed simp_all

lemma sequence_err_first_error:
  assumes "\<And>x e. x \<in> set xs \<Longrightarrow> f x = Inl e \<Longrightarrow> e = c"
  shows "sequence_err (map f xs) =
           (if \<exists>x \<in> set xs. \<exists>e. f x = Inl e then Inl c else Inr (map (\<lambda>x. projr (f x)) xs))"
  using assms
proof (induction xs)
  case Nil
  then show ?case by simp
next
  case (Cons x xs)
  have IH: "sequence_err (map f xs) =
           (if \<exists>x \<in> set xs. \<exists>e. f x = Inl e then Inl c else Inr (map (\<lambda>x. projr (f x)) xs))"
  proof (rule Cons.IH)
    fix y e assume "y \<in> set xs" "f y = Inl e"
    then show "e = c" using Cons.prems [of y e] by simp
  qed
  show ?case
  proof (cases "f x")
    case (Inl e)
    then have "e = c" using Cons.prems [of x e] by simp
    then show ?thesis using Inl by auto
  next
    case (Inr t)
    then show ?thesis using IH by auto
  qed
qed

text \<open>
  C3, as the code has it. On a non-empty list \<^verbatim>\<open>typeof\<close> infers the type of every
  element first. It raises \<^verbatim>\<open>TypeError\<close> when the inference of the first element
  raises; otherwise, with \<open>T\<close> the type of the first element, it raises
  \<^verbatim>\<open>TypeError\<close> exactly when the inference of some other element raises or gives
  a type different from \<open>T\<close>, and returns \<open>List(T)\<close> when there is no such element.
  The other elements are compared with the first one only.
\<close>

theorem typeof_list:
  "typeof (VList (x # xs)) =
     (case typeof x of
        Inl e \<Rightarrow> Inl TypeError
      | Inr t0 \<Rightarrow>
          if \<exists>y \<in> set xs. typeof y \<noteq> Inr t0 then Inl TypeError else Inr (TList t0))"
proof -
  have seq: "sequence_err (map typeof (x # xs)) =
      (if \<exists>y \<in> set (x # xs). \<exists>e. typeof y = Inl e then Inl TypeError
       else Inr (map (\<lambda>y. projr (typeof y)) (x # xs)))"
    by (rule sequence_err_first_error) (rule typeof_error)
  show ?thesis
  proof (cases "typeof x")
    case (Inl e)
    then show ?thesis using seq by auto
  next
    case (Inr t0)
    show ?thesis
    proof (cases "\<exists>y \<in> set xs. \<exists>e. typeof y = Inl e")
      case True
      then obtain y e where y: "y \<in> set xs" "typeof y = Inl e" by blast
      then have "typeof y \<noteq> Inr t0" by simp
      with y(1) have "\<exists>y \<in> set xs. typeof y \<noteq> Inr t0" by blast
      then show ?thesis using Inr True seq by auto
    next
      case False
      then have all: "\<forall>y \<in> set xs. \<exists>t. typeof y = Inr t"
        by (metis sum.exhaust)
      have "list_ex (\<lambda>t. t \<noteq> t0) (map (\<lambda>y. projr (typeof y)) xs)
              \<longleftrightarrow> (\<exists>y \<in> set xs. typeof y \<noteq> Inr t0)"
      proof -
        have "(projr (typeof y) \<noteq> t0) = (typeof y \<noteq> Inr t0)" if "y \<in> set xs" for y
        proof -
          from that all obtain t where "typeof y = Inr t" by blast
          then show ?thesis by simp
        qed
        then show ?thesis by (auto simp: list_ex_iff)
      qed
      then show ?thesis using Inr False seq by (auto simp: Let_def)
    qed
  qed
qed

text \<open>
  A list whose only element is a list of an integer and a float: \<^verbatim>\<open>typeof\<close> raises
  \<^verbatim>\<open>TypeError\<close> and there is no other element.
\<close>

theorem typeof_list_nested_counterexample:
  "typeof (VList [VList [VInt 1, VFloat 0]]) = Inl TypeError"
  by simp

text \<open>Three lists: one type, two types, and a second element whose inference raises.\<close>

theorem typeof_list_witness:
  "typeof (VList [VInt 1, VInt 2]) = Inr (TList (TInt 64))
   \<and> typeof (VList [VInt 1, VFloat 0]) = Inl TypeError
   \<and> typeof (VList [VInt 1, VList [VInt 2, VFloat 0]]) = Inl TypeError"
  using typeof_list [of "VInt 1" "[VInt 2]"] typeof_list [of "VInt 1" "[VFloat 0]"]
    typeof_list [of "VInt 1" "[VList [VInt 2, VFloat 0]]"]
  by simp

text \<open>
  C9. On the empty list \<^verbatim>\<open>typeof\<close> raises nothing: the list branch asks for
  \<^verbatim>\<open>len(x) > 0\<close>, and the last branch returns \<open>External(list)\<close>.
\<close>

theorem typeof_empty_list: "typeof (VList []) = Inr (TExternal C_list)"
  by simp

subsection \<open>Head and tail\<close>

text \<open>
  C8, as the code has it. \<^verbatim>\<open>head\<close> of a non-empty tuple is its first element and
  \<^verbatim>\<open>tail\<close> is the tuple of the others; on the empty tuple \<^verbatim>\<open>head\<close> raises
  \<^verbatim>\<open>IndexError\<close>, and \<^verbatim>\<open>tail\<close>, a slice, returns the empty tuple.
\<close>

theorem head_tail_tuple:
  "head h (VTuple (x # xs)) = Inr x
   \<and> tail h (VTuple (x # xs)) = Inr (VTuple xs)
   \<and> head h (VTuple []) = Inl IndexError
   \<and> tail h (VTuple []) = Inr (VTuple [])"
  by (simp add: head_def tail_def py_getitem_def py_tail_def seq_getitem_def)

text \<open>The tail of the empty tuple is no \<^verbatim>\<open>IndexError\<close>.\<close>

theorem tail_empty_tuple_counterexample:
  "tail null_host (VTuple []) = Inr (VTuple [])"
  by (simp add: tail_def py_tail_def)

subsection \<open>The iterator protocol\<close>

lemma nexts_from:
  assumes "src = VList xs \<or> src = VTuple xs"
  shows "c + k \<le> length xs \<Longrightarrow>
         nexts h k (VTuple [VInt (int c), src]) =
           Inr (take k (drop c xs), VTuple [VInt (int (c + k)), src])"
proof (induction k arbitrary: c)
  case 0
  then show ?case by simp
next
  case (Suc k)
  then have c: "c < length xs" by simp
  have step: "prim_next h (VTuple [VInt (int c), src]) =
                Inr (VTuple [xs ! c, VTuple [VInt (int (Suc c)), src]])"
    using assms c
    by (auto simp: prim_next_def unpack2_def py_iterate_def py_getitem_def seq_getitem_def
        py_binop_def add.commute)
  have "Suc c + k \<le> length xs" using Suc.prems by simp
  from Suc.IH [OF this] step c show ?case
    by (simp add: take_Suc_conv_app_nth Cons_nth_drop_Suc [symmetric] del: nexts.simps(2))
      (simp add: Cons_nth_drop_Suc [symmetric])
qed

lemma next_step:
  assumes "src = VList xs \<or> src = VTuple xs" and "c < length xs"
  shows "prim_next h (VTuple [VInt (int c), src]) =
           Inr (VTuple [xs ! c, VTuple [VInt (int c + 1), src]])"
  using assms
  by (auto simp: prim_next_def unpack2_def py_iterate_def py_getitem_def seq_getitem_def
      py_binop_def)

lemma next_exhausted:
  assumes "src = VList xs \<or> src = VTuple xs"
  shows "prim_next h (VTuple [VInt (int (length xs)), src]) = Inl IndexError"
  using assms
  by (auto simp: prim_next_def unpack2_def py_iterate_def py_getitem_def seq_getitem_def)

lemma nexts_fail:
  assumes "src = VList xs \<or> src = VTuple xs"
  shows "c + k = length xs \<Longrightarrow>
         nexts h (Suc k) (VTuple [VInt (int c), src]) = Inl IndexError"
proof (induction k arbitrary: c)
  case 0
  then show ?case
    using next_exhausted [OF assms, of h] by simp
next
  case (Suc k)
  then have c: "c < length xs" by simp
  have "Suc c + k = length xs" using Suc.prems by simp
  from Suc.IH [OF this] have "nexts h (Suc k) (VTuple [VInt (int c + 1), src]) = Inl IndexError"
    by (simp add: add.commute)
  then show ?case
    using next_step [OF assms c, of h] by (simp del: nexts.simps(2) add: nexts.simps(2) [of h "Suc k"])
qed

text \<open>
  C6. Over a source of \<open>n\<close> elements, \<open>k \<le> n\<close> successive calls of \<^verbatim>\<open>next\<close> from
  \<^verbatim>\<open>iter(src)\<close> succeed, give the first \<open>k\<close> elements and leave the cursor at
  \<open>k\<close>; at cursor \<open>n\<close> the next call raises \<^verbatim>\<open>IndexError\<close>, so the call number
  \<open>n + 1\<close> fails; and \<^verbatim>\<open>hasnext\<close> at a cursor \<open>k \<le> n\<close> is \<open>k < n\<close>, false at
  \<open>n\<close> only.
\<close>

theorem iterator_protocol:
  assumes "src = VList xs \<or> src = VTuple xs"
  shows "(k \<le> length xs \<longrightarrow>
            nexts h k (prim_iter src) = Inr (take k xs, VTuple [VInt (int k), src]))
       \<and> prim_next h (VTuple [VInt (int (length xs)), src]) = Inl IndexError
       \<and> nexts h (Suc (length xs)) (prim_iter src) = Inl IndexError
       \<and> (k \<le> length xs \<longrightarrow>
            prim_hasnext h (VTuple [VInt (int k), src]) = Inr (VBool (k < length xs)))"
proof (intro conjI impI)
  assume "k \<le> length xs"
  then show "nexts h k (prim_iter src) = Inr (take k xs, VTuple [VInt (int k), src])"
    using nexts_from [OF assms, of 0 k h] by (simp add: prim_iter_def)
next
  show "prim_next h (VTuple [VInt (int (length xs)), src]) = Inl IndexError"
    by (rule next_exhausted [OF assms])
next
  show "nexts h (Suc (length xs)) (prim_iter src) = Inl IndexError"
    using nexts_fail [OF assms, of 0 "length xs" h] by (simp add: prim_iter_def)
next
  assume "k \<le> length xs"
  then show "prim_hasnext h (VTuple [VInt (int k), src]) = Inr (VBool (k < length xs))"
    using assms
    by (auto simp: prim_hasnext_def unpack2_def py_iterate_def py_len_def py_binop_def)
qed

theorem iterator_protocol_witness:
  "nexts null_host 2 (prim_iter (VList [VInt 7, VInt 8])) =
     Inr ([VInt 7, VInt 8], VTuple [VInt 2, VList [VInt 7, VInt 8]])
   \<and> prim_next null_host (VTuple [VInt 2, VList [VInt 7, VInt 8]]) = Inl IndexError
   \<and> nexts null_host 3 (prim_iter (VList [VInt 7, VInt 8])) = Inl IndexError
   \<and> prim_hasnext null_host (VTuple [VInt 2, VList [VInt 7, VInt 8]]) = Inr (VBool False)"
  using iterator_protocol [of "VList [VInt 7, VInt 8]" "[VInt 7, VInt 8]" 2 null_host]
  by (simp add: numeral_3_eq_3 numeral_2_eq_2)

subsection \<open>\<^verbatim>\<open>next\<close> on the store\<close>

lemma store_next_prim_next:
  "store_next h s it = bind_err (prim_next h (s ! it)) (\<lambda>r. Inr (length s, s @ [r]))"
  by (auto simp: store_next_def prim_next_def bind_err_def split: sum.splits prod.splits)

lemma store_next_frame:
  assumes "store_next h s it = Inr (r, s')"
  shows "r = length s \<and> length s' = Suc (length s) \<and> (\<forall>a < length s. s' ! a = s ! a)"
  using assms
  by (auto simp: store_next_prim_next bind_err_def nth_append split: sum.splits)

lemma store_next_step:
  assumes "s ! it = VTuple [VInt (int k), src]" and "src = VList xs \<or> src = VTuple xs"
    and "k < length xs"
  shows "store_next h s it =
           Inr (length s, s @ [VTuple [xs ! k, VTuple [VInt (int k + 1), src]]])"
  using assms(1) next_step [OF assms(2,3), of h] by (simp add: store_next_prim_next)

text \<open>
  C10. Over the store, \<^verbatim>\<open>next\<close> on the iterator object \<open>it\<close> with cursor \<open>k\<close> inside
  the source returns a new object, the pair of the element at \<open>k\<close> and of an
  iterator with cursor \<open>k + 1\<close> on the same source; every object of the store, the
  iterator \<open>it\<close> included, is as it was, and a second call on \<open>it\<close> returns a pair of
  the same element and the same successor. Whenever \<^verbatim>\<open>next\<close> returns, its result
  is a new object and every object of the store is as it was.
\<close>

theorem next_persistent:
  "(it < length s \<and> s ! it = VTuple [VInt (int k), src]
      \<and> (src = VList xs \<or> src = VTuple xs) \<and> k < length xs \<longrightarrow>
      (\<exists>r s'. store_next h s it = Inr (r, s')
         \<and> r = length s
         \<and> s' ! r = VTuple [xs ! k, VTuple [VInt (int k + 1), src]]
         \<and> s' ! it = s ! it
         \<and> (\<exists>r2 s2. store_next h s' it = Inr (r2, s2)
               \<and> r2 \<noteq> r \<and> s2 ! r2 = s' ! r \<and> s2 ! r = s' ! r \<and> s2 ! it = s ! it)))
   \<and> (store_next h s it = Inr (r, s') \<longrightarrow>
         r = length s \<and> length s' = Suc (length s) \<and> (\<forall>a < length s. s' ! a = s ! a))"
proof -
  have p1: "it < length s \<and> s ! it = VTuple [VInt (int k), src]
      \<and> (src = VList xs \<or> src = VTuple xs) \<and> k < length xs \<longrightarrow>
      (\<exists>r s'. store_next h s it = Inr (r, s')
         \<and> r = length s
         \<and> s' ! r = VTuple [xs ! k, VTuple [VInt (int k + 1), src]]
         \<and> s' ! it = s ! it
         \<and> (\<exists>r2 s2. store_next h s' it = Inr (r2, s2)
               \<and> r2 \<noteq> r \<and> s2 ! r2 = s' ! r \<and> s2 ! r = s' ! r \<and> s2 ! it = s ! it))"
  proof
    assume a: "it < length s \<and> s ! it = VTuple [VInt (int k), src]
      \<and> (src = VList xs \<or> src = VTuple xs) \<and> k < length xs"
    let ?p = "VTuple [xs ! k, VTuple [VInt (int k + 1), src]]"
    let ?s' = "s @ [?p]"
    from a have 1: "store_next h s it = Inr (length s, ?s')"
      using store_next_step [of s it k src xs h] by blast
    from a have it': "?s' ! it = VTuple [VInt (int k), src]"
      by (simp add: nth_append)
    from a have 2: "store_next h ?s' it = Inr (length ?s', ?s' @ [?p])"
      using store_next_step [OF it', of xs h] by blast
    show "\<exists>r s'. store_next h s it = Inr (r, s')
         \<and> r = length s
         \<and> s' ! r = VTuple [xs ! k, VTuple [VInt (int k + 1), src]]
         \<and> s' ! it = s ! it
         \<and> (\<exists>r2 s2. store_next h s' it = Inr (r2, s2)
               \<and> r2 \<noteq> r \<and> s2 ! r2 = s' ! r \<and> s2 ! r = s' ! r \<and> s2 ! it = s ! it)"
      using 1 2 a by (simp add: nth_append)
  qed
  have p2: "store_next h s it = Inr (r, s') \<longrightarrow>
         r = length s \<and> length s' = Suc (length s) \<and> (\<forall>a < length s. s' ! a = s ! a)"
    using store_next_frame [of h s it r s'] by blast
  show ?thesis by (rule conjI [OF p1 p2])
qed

theorem next_persistent_witness:
  "store_next null_host [VTuple [VInt 0, VList [VInt 7, VInt 8]]] 0
     = Inr (1, [VTuple [VInt 0, VList [VInt 7, VInt 8]],
                VTuple [VInt 7, VTuple [VInt 1, VList [VInt 7, VInt 8]]]])
   \<and> [VTuple [VInt 0, VList [VInt 7, VInt 8]],
       VTuple [VInt 7, VTuple [VInt 1, VList [VInt 7, VInt 8]]]] ! 0
       = VTuple [VInt 0, VList [VInt 7, VInt 8]]"
proof -
  let ?s = "[VTuple [VInt 0, VList [VInt 7, VInt 8]]]"
  let ?s' = "[VTuple [VInt 0, VList [VInt 7, VInt 8]],
                VTuple [VInt 7, VTuple [VInt 1, VList [VInt 7, VInt 8]]]]"
  have e: "store_next null_host ?s 0 = Inr (1, ?s')"
    using store_next_step [of ?s 0 0 "VList [VInt 7, VInt 8]" "[VInt 7, VInt 8]" null_host]
    by simp
  show ?thesis
    using e next_persistent [of 0 ?s 0 "VList [VInt 7, VInt 8]" "[VInt 7, VInt 8]" null_host 1 ?s']
    by simp
qed

subsection \<open>\<^verbatim>\<open>setitem\<close> and \<^verbatim>\<open>setattr\<close> on the store\<close>

lemma enumerate_replace:
  "map (\<lambda>(i, x). if i = k then v else x) (enumerate m xs) =
     (if m \<le> k then xs[k - m := v] else xs)"
proof (induction xs arbitrary: m)
  case Nil
  then show ?case by simp
next
  case (Cons x xs)
  show ?case
  proof (cases "m = k")
    case True
    then show ?thesis using Cons [of "Suc m"] by simp
  next
    case False
    show ?thesis
    proof (cases "m \<le> k")
      case True
      with False have le: "Suc m \<le> k" by simp
      then have "k - m = Suc (k - Suc m)" by arith
      then have "(x # xs)[k - m := v] = x # xs[k - Suc m := v]" by simp
      then show ?thesis
        using Cons [of "Suc m"] le False True by simp
    next
      case nle: False
      then show ?thesis
        using Cons [of "Suc m"] False by simp
    qed
  qed
qed

lemma tuple_comprehension:
  "mapM_err
     (\<lambda>(i, x). bind_err (py_binop h Eq (VInt (int i)) (VInt j)) (\<lambda>c.
                 bind_err (py_truth h c) (\<lambda>b. Inr (if b then v else x))))
     (enumerate m xs)
   = Inr (map (\<lambda>(i, x). if int i = j then v else x) (enumerate m xs))"
  by (induction xs arbitrary: m) (simp_all add: py_binop_def py_truth_def)

lemma setitem_tuple:
  assumes "s ! data = VTuple xs"
  shows "setitem h s data (VInt (int k)) v = Inr (length s, s @ [VTuple (xs[k := v])])"
proof -
  have "map (\<lambda>(i, x). if int i = int k then v else x) (enumerate 0 xs) = xs[k := v]"
    using enumerate_replace [of k v 0 xs] by simp
  then show ?thesis
    using assms by (simp add: setitem_def tuple_comprehension)
qed

lemma setitem_tuple_never_raises:
  assumes "s ! data = VTuple xs"
  shows "\<exists>ys. setitem h s data (VInt j) v = Inr (length s, s @ [VTuple ys])"
  using assms by (simp add: setitem_def tuple_comprehension)

lemma setitem_list:
  assumes "s ! data = VList xs" and "- int (length xs) \<le> j" and "j < int (length xs)"
  shows "setitem h s data (VInt j) v =
           Inr (length s, s @ [VList (xs[nat (if j < 0 then j + int (length xs) else j) := v])])"
  using assms by (simp add: setitem_def copy_def store_setitem_def Let_def)

lemma setitem_frame:
  assumes "setitem h s data item v = Inr (r, s')"
  shows "take (length s) s' = s \<and> r = length s \<and> length s' = Suc (length s)"
proof (cases "\<exists>xs. s ! data = VTuple xs")
  case True
  then show ?thesis
    using assms by (auto simp: setitem_def bind_err_def split: sum.splits)
next
  case False
  then have eq: "setitem h s data item v =
      (let (data2, s1) = copy s data in
       bind_err (store_setitem h s1 data2 item v) (\<lambda>s2. Inr (data2, s2)))"
    by (cases "s ! data") (simp_all add: setitem_def)
  show ?thesis
  proof (cases "is_mutable (s ! data)")
    case True
    then show ?thesis
      using assms unfolding eq
      by (auto simp: copy_def store_setitem_def bind_err_def Let_def
          split: sum.splits val.splits option.splits if_splits)
  next
    case False
    then show ?thesis
      using assms unfolding eq
      by (auto simp: copy_def store_setitem_def bind_err_def Let_def
          split: sum.splits val.splits option.splits if_splits)
  qed
qed

lemma setitem_list_index_error:
  assumes "s ! data = VList xs" and "as_int item = Some j"
    and "j < - int (length xs) \<or> int (length xs) \<le> j"
  shows "setitem h s data item v = Inl IndexError"
  using assms by (auto simp: setitem_def copy_def store_setitem_def Let_def)

lemma setitem_tuple_int:
  assumes "s ! data = VTuple xs"
  shows "setitem h s data (VInt j) v =
           Inr (length s, s @ [VTuple (if 0 \<le> j then xs[nat j := v] else xs)])"
proof -
  have "map (\<lambda>(i, x). if int i = j then v else x) (enumerate 0 xs) =
          (if 0 \<le> j then xs[nat j := v] else xs)"
  proof (cases "0 \<le> j")
    case True
    then have "\<And>i. (int i = j) = (i = nat j)" by auto
    then show ?thesis using enumerate_replace [of "nat j" v 0 xs] True by simp
  next
    case False
    then have "\<And>i. (int i = j) = False" by auto
    then show ?thesis using False by (simp add: enumerate_eq_zip map_idI split_def)
  qed
  then show ?thesis
    using assms by (simp add: setitem_def tuple_comprehension)
qed

lemma map_of_attr_update:
  "map_of (attr_update k v ats) = (map_of ats)(k \<mapsto> v)"
  by (induction ats) auto

lemma setattr_obj:
  assumes "s ! data = VObj c ats"
  shows "setattr h s data (VStr name) v =
           Inr (length s, s @ [VObj c (attr_update name v ats)])"
  using assms by (simp add: setattr_def copy_def py_setattr_def)

lemma setattr_fun:
  assumes "data < length s" and "s ! data = VFun n ats"
  shows "setattr h s data (VStr name) v =
           Inr (data, s[data := VFun n (attr_update name v ats)])"
  using assms by (simp add: setattr_def copy_def py_setattr_def)

lemma setattr_frame:
  assumes "is_mutable (s ! data)" and "setattr h s data attr v = Inr (r, s')"
  shows "take (length s) s' = s \<and> r = length s \<and> length s' = Suc (length s)"
  using assms
  by (auto simp: setattr_def copy_def py_setattr_def bind_err_def Let_def
      split: sum.splits val.splits if_splits)

lemma frame_nth:
  assumes "take (length s) s' = s" and "a < length s"
  shows "s' ! a = s ! a"
proof -
  have "take (length s) s' ! a = s' ! a" using assms(2) by simp
  then show ?thesis using assms(1) by simp
qed

text \<open>
  What the two primitives do for the objects that \<^verbatim>\<open>copy\<close> copies. On a list
  \<open>d\<close> and an index in range, negative or not, \<^verbatim>\<open>setitem(d, i, v)\<close> returns a new
  list \<open>r\<close> with \<^verbatim>\<open>r[i] == v\<close>, and on a tuple and a position \<open>i < len(d)\<close> a new
  tuple with \<^verbatim>\<open>r[i] == v\<close>; whenever \<^verbatim>\<open>setitem\<close> returns, every object of the store
  is as it was. \<^verbatim>\<open>setattr\<close> on an instance returns a new instance with the
  attribute set, and every object of the store is as it was whenever it returns on
  a list, an array or an instance.
\<close>

lemma setitem_list_copy:
  assumes "s ! d = VList xs" and "- int (length xs) \<le> j" and "j < int (length xs)"
  shows "\<exists>r s'. setitem h s d (VInt j) v = Inr (r, s') \<and> getitem h (s' ! r) (VInt j) = Inr v"
proof -
  let ?k = "nat (if j < 0 then j + int (length xs) else j)"
  have k: "?k < length xs" using assms(2,3) by auto
  have "seq_getitem (xs[?k := v]) j = Inr v"
    using assms(2,3) k by (simp add: seq_getitem_def Let_def)
  then show ?thesis
    using setitem_list [OF assms, of h v]
    by (simp add: getitem_def py_getitem_def)
qed

lemma setitem_tuple_copy:
  assumes "s ! d = VTuple xs" and "i < length xs"
  shows "\<exists>r s'. setitem h s d (VInt (int i)) v = Inr (r, s')
           \<and> getitem h (s' ! r) (VInt (int i)) = Inr v"
  using setitem_tuple [OF assms(1), of h i v] assms(2)
  by (simp add: getitem_def py_getitem_def seq_getitem_def)

lemma setitem_unchanged:
  assumes "setitem h s d item v = Inr (r, s')"
  shows "r = length s \<and> (\<forall>a < length s. s' ! a = s ! a)"
  using setitem_frame [OF assms] frame_nth [of s s'] by blast

lemma setattr_instance_copy:
  assumes "s ! d = VObj c ats"
  shows "\<exists>r s'. setattr h s d (VStr name) v = Inr (r, s')
           \<and> r = length s \<and> (\<forall>a < length s. s' ! a = s ! a)
           \<and> s' ! r = VObj c (attr_update name v ats)
           \<and> py_getattr h (s' ! r) (VStr name) = Inr v"
  using setattr_obj [OF assms, of h name v]
  by (simp add: nth_append map_of_attr_update py_getattr_def)

lemma setattr_unchanged:
  assumes "is_mutable (s ! d)" and "setattr h s d attr v = Inr (r, s')"
  shows "r = length s \<and> (\<forall>a < length s. s' ! a = s ! a)"
  using setattr_frame [OF assms] frame_nth [of s s'] by blast

text \<open>
  C5 fails on the code at two inputs. \<^verbatim>\<open>copy\<close> returns a function object itself,
  so that \<^verbatim>\<open>setattr\<close> sets the attribute on its argument: the object returned is
  the argument, with the attribute. And on a tuple the position is compared with
  the index by \<^verbatim>\<open>==\<close>, so that the index \<open>-1\<close>, which is in range, replaces
  nothing: the result \<open>r\<close> of \<^verbatim>\<open>setitem((1, 2), -1, 9)\<close> is \<open>(1, 2)\<close> and \<^verbatim>\<open>r[-1]\<close> is
  \<open>2\<close>, where the same call on the list \<open>[1, 2]\<close> gives \<open>[1, 9]\<close>.
\<close>

theorem setattr_setitem_failing_inputs:
  "setattr h [VFun 0 []] 0 (VStr ''x'') (VInt 1) = Inr (0, [VFun 0 [(''x'', VInt 1)]])
   \<and> setitem h [VTuple [VInt 1, VInt 2]] 0 (VInt (- 1)) (VInt 9)
       = Inr (1, [VTuple [VInt 1, VInt 2], VTuple [VInt 1, VInt 2]])
   \<and> getitem h (VTuple [VInt 1, VInt 2]) (VInt (- 1)) = Inr (VInt 2)
   \<and> setitem h [VList [VInt 1, VInt 2]] 0 (VInt (- 1)) (VInt 9)
       = Inr (1, [VList [VInt 1, VInt 2], VList [VInt 1, VInt 9]])"
proof -
  have 1: "setattr h [VFun 0 []] 0 (VStr ''x'') (VInt 1) = Inr (0, [VFun 0 [(''x'', VInt 1)]])"
    using setattr_fun [of 0 "[VFun 0 []]" 0 "[]" h "''x''" "VInt 1"] by simp
  have 2: "setitem h [VTuple [VInt 1, VInt 2]] 0 (VInt (- 1)) (VInt 9)
       = Inr (1, [VTuple [VInt 1, VInt 2], VTuple [VInt 1, VInt 2]])"
    using setitem_tuple_int [of "[VTuple [VInt 1, VInt 2]]" 0 "[VInt 1, VInt 2]" h "- 1" "VInt 9"]
    by simp
  have 3: "getitem h (VTuple [VInt 1, VInt 2]) (VInt (- 1)) = Inr (VInt 2)"
    by (simp add: getitem_def py_getitem_def seq_getitem_def)
  have 4: "setitem h [VList [VInt 1, VInt 2]] 0 (VInt (- 1)) (VInt 9)
       = Inr (1, [VList [VInt 1, VInt 2], VList [VInt 1, VInt 9]])"
    using setitem_list [of "[VList [VInt 1, VInt 2]]" 0 "[VInt 1, VInt 2]" "- 1" h "VInt 9"]
    by simp
  show ?thesis by (rule conjI [OF 1 conjI [OF 2 conjI [OF 3 4]]])
qed

text \<open>
  C7 fails on the code at a tuple: no position of \<open>(1, 2)\<close> compares equal to the
  index \<open>5\<close>, and \<^verbatim>\<open>setitem((1, 2), 5, 9)\<close> returns \<open>(1, 2)\<close> where the same call on
  the list \<open>[1, 2]\<close> raises \<^verbatim>\<open>IndexError\<close>.
\<close>

theorem setitem_tuple_out_of_range:
  "setitem h [VTuple [VInt 1, VInt 2]] 0 (VInt 5) (VInt 9)
     = Inr (1, [VTuple [VInt 1, VInt 2], VTuple [VInt 1, VInt 2]])
   \<and> setitem h [VList [VInt 1, VInt 2]] 0 (VInt 5) (VInt 9) = Inl IndexError"
proof -
  have 1: "setitem h [VTuple [VInt 1, VInt 2]] 0 (VInt 5) (VInt 9)
     = Inr (1, [VTuple [VInt 1, VInt 2], VTuple [VInt 1, VInt 2]])"
    using setitem_tuple_int [of "[VTuple [VInt 1, VInt 2]]" 0 "[VInt 1, VInt 2]" h 5 "VInt 9"]
    by simp
  have 2: "setitem h [VList [VInt 1, VInt 2]] 0 (VInt 5) (VInt 9) = Inl IndexError"
    using setitem_list_index_error [of "[VList [VInt 1, VInt 2]]" 0 "[VInt 1, VInt 2]" "VInt 5" 5]
    by simp
  show ?thesis by (rule conjI [OF 1 2])
qed

subsection \<open>The two registries agree\<close>

lemma py_untouched:
  "p \<notin> set (py_keys rs) \<Longrightarrow>
   py_implementations (fold run_registration rs R) p = py_implementations R p"
  by (induction rs arbitrary: R rule: py_keys.induct)
    (simp_all add: register_def py_register_def vm_register_def)

lemma vm_untouched:
  "p \<notin> set (vm_keys rs) \<Longrightarrow>
   vm_implementations (fold run_registration rs R) p = vm_implementations R p"
  by (induction rs arbitrary: R rule: vm_keys.induct)
    (simp_all add: register_def py_register_def vm_register_def)

lemma Register_in_keys:
  "Register p fn \<in> set rs \<Longrightarrow> p \<in> set (py_keys rs) \<and> p \<in> set (vm_keys rs)"
  by (induction rs rule: py_keys.induct) auto

lemma fold_registrations:
  assumes "distinct (py_keys rs)" and "distinct (vm_keys rs)" and "Register p fn \<in> set rs"
  shows "py_implementations (fold run_registration rs R) p = Some fn
       \<and> vm_implementations (fold run_registration rs R) p = Some (\<lambda>vm args. fn args)"
  using assms
proof (induction rs arbitrary: R)
  case Nil
  then show ?case by simp
next
  case (Cons r rs)
  show ?case
  proof (cases "Register p fn \<in> set rs")
    case True
    have "distinct (py_keys rs)" "distinct (vm_keys rs)"
      using Cons.prems(1,2) by (cases r; simp)+
    from Cons.IH [OF this True] show ?thesis by simp
  next
    case False
    then have r: "r = Register p fn" using Cons.prems(3) by simp
    then have "p \<notin> set (py_keys rs)" "p \<notin> set (vm_keys rs)"
      using Cons.prems(1,2) by simp_all
    then show ?thesis
      using r by (simp add: py_untouched vm_untouched register_def py_register_def vm_register_def)
  qed
qed

lemma module_keys_distinct:
  "distinct (py_keys (module_registrations h))" "distinct (vm_keys (module_registrations h))"
  by (simp_all add: module_registrations_def)

text \<open>
  C1. For every primitive the module registers through \<^verbatim>\<open>register\<close>, both
  registries hold an implementation, the pure one is the function registered, and
  the one of the VM, given any VM and any arguments, returns what the pure one
  returns on these arguments.
\<close>

theorem register_agrees:
  assumes "Register p fn \<in> set (module_registrations h)"
  shows "\<exists>f g. py_implementations (module_registries h) p = Some f
           \<and> vm_implementations (module_registries h) p = Some g
           \<and> f = fn \<and> (\<forall>vm args. g vm args = f args)"
  using fold_registrations [OF module_keys_distinct assms]
  by (simp add: module_registries_def)

theorem register_agrees_witness:
  "the (py_implementations (module_registries null_host) P_scalar_add) [VInt 2, VInt 3]
     = Inr (VInt 5)
   \<and> the (vm_implementations (module_registries null_host) P_scalar_add) null_vm
       [VInt 2, VInt 3] = Inr (VInt 5)"
proof -
  have "Register P_scalar_add (star2 (scalar_add null_host))
          \<in> set (module_registrations null_host)"
    by (simp add: module_registrations_def)
  from register_agrees [OF this] show ?thesis
    by (auto simp: star2_def scalar_add_def py_binop_def)
qed

text \<open>
  The two implementations of \<^verbatim>\<open>array_scan\<close> are registered apart and share the
  scan: they agree whenever the VM calls the function as Python does.
\<close>

lemma array_scan_shared:
  assumes "\<And>a b. vm_call vm fn [a, b] = py_call h fn [a, b]"
  shows "\<exists>f g. py_implementations (module_registries h) P_array_scan = Some f
           \<and> vm_implementations (module_registries h) P_array_scan = Some g
           \<and> g vm [fn, init, array, axis] = f [fn, init, array, axis]"
  using assms
  by (simp add: module_registries_def module_registrations_def register_def py_register_def
      vm_register_def star4_def array_scan_vm_def)

subsection \<open>Lanes of an array\<close>

lemma length_concat_uniform:
  "\<forall>x \<in> set xss. length x = L \<Longrightarrow> length (concat xss) = length xss * L"
  by (induction xss) auto

lemma concat_nth_uniform:
  "\<forall>x \<in> set xss. length x = L \<Longrightarrow> i < length xss \<Longrightarrow> r < L \<Longrightarrow>
   concat xss ! (i * L + r) = xss ! i ! r"
proof (induction xss arbitrary: i)
  case Nil
  then show ?case by simp
next
  case (Cons x xss)
  show ?case
  proof (cases i)
    case 0
    then show ?thesis using Cons.prems by (simp add: nth_append)
  next
    case (Suc i')
    have "Suc i' * L + r = length x + (i' * L + r)" using Cons.prems(1) by simp
    then have "concat (x # xss) ! (i * L + r) = concat xss ! (i' * L + r)"
      using Suc by (simp add: nth_append del: mult_Suc)
    then show ?thesis
      using Cons.IH [of i'] Cons.prems Suc by simp
  qed
qed

lemma length_lanes: "length (lanes outer n inner d) = outer * inner"
  unfolding lanes_def by (subst length_concat_uniform [where L = inner]) auto

lemma nth_lanes:
  assumes "q < outer" and "j < inner"
  shows "lanes outer n inner d ! (q * inner + j) =
           map (\<lambda>i. d ! (q * n * inner + i * inner + j)) [0..<n]"
  unfolding lanes_def
  using assms by (subst concat_nth_uniform [where L = inner]) auto

lemma lanes_index:
  assumes "m < outer * (inner :: nat)"
  shows "\<exists>q j. q < outer \<and> j < inner \<and> m = q * inner + j"
proof -
  have pos: "0 < inner" using assms by (cases inner) auto
  have "m div inner < outer"
    using assms pos by (simp add: less_mult_imp_div_less)
  moreover have "m mod inner < inner" using pos by simp
  moreover have "m = (m div inner) * inner + m mod inner" by simp
  ultimately show ?thesis by blast
qed

lemma length_lane:
  assumes "m < length (lanes outer n inner d)"
  shows "length (lanes outer n inner d ! m) = n"
proof -
  from assms have "m < outer * inner" by (simp add: length_lanes)
  from lanes_index [OF this] obtain q j where "q < outer" "j < inner" "m = q * inner + j"
    by blast
  then show ?thesis by (simp add: nth_lanes)
qed

lemma nth_unlanes:
  assumes "q < outer" and "k < m" and "j < inner"
  shows "unlanes outer m inner rs ! (q * m * inner + k * inner + j) = rs ! (q * inner + j) ! k"
proof -
  let ?block = "\<lambda>q. concat (map (\<lambda>k. map (\<lambda>j. rs ! (q * inner + j) ! k) [0..<inner]) [0..<m])"
  have len: "\<And>q. length (?block q) = m * inner"
    by (subst length_concat_uniform [where L = inner]) auto
  have "(Suc k) * inner \<le> m * inner" using assms(2) by (intro mult_le_mono1) simp
  then have lt: "k * inner + j < m * inner" using assms(3) by simp
  have idx: "q * m * inner + k * inner + j = q * (m * inner) + (k * inner + j)"
    by (simp add: algebra_simps)
  have "unlanes outer m inner rs ! (q * m * inner + k * inner + j) =
          concat (map ?block [0..<outer]) ! (q * (m * inner) + (k * inner + j))"
    by (simp only: unlanes_def idx)
  also have "\<dots> = map ?block [0..<outer] ! q ! (k * inner + j)"
    using assms(1) lt by (subst concat_nth_uniform [where L = "m * inner"]) (auto simp: len)
  also have "\<dots> = ?block q ! (k * inner + j)" using assms(1) by simp
  also have "\<dots> = rs ! (q * inner + j) ! k"
    using assms(2,3) by (subst concat_nth_uniform [where L = inner]) auto
  finally show ?thesis .
qed

lemma length_unlanes: "length (unlanes outer m inner rs) = outer * (m * inner)"
proof -
  let ?block = "\<lambda>q. concat (map (\<lambda>k. map (\<lambda>j. rs ! (q * inner + j) ! k) [0..<inner]) [0..<m])"
  have len: "\<And>q. length (?block q) = m * inner"
    by (subst length_concat_uniform [where L = inner]) auto
  show ?thesis
    unfolding unlanes_def
    by (subst length_concat_uniform [where L = "m * inner"]) (auto simp: len)
qed

subsection \<open>The scan\<close>

lemma scan_loop_Inr:
  "scan_loop fn st v xs = Inr ys \<Longrightarrow>
   \<exists>acc. length acc = length xs \<and> length ys = length xs \<and>
     (\<forall>i < length xs. fn (if i = 0 then v else acc ! (i - 1)) (xs ! i) = Inr (acc ! i)
                       \<and> st (acc ! i) = Inr (ys ! i))"
proof (induction xs arbitrary: v ys)
  case Nil
  then show ?case by simp
next
  case (Cons x xs)
  from Cons.prems obtain v' y ys' where v': "fn v x = Inr v'" and y: "st v' = Inr y"
    and ys': "scan_loop fn st v' xs = Inr ys'" and ys: "ys = y # ys'"
    by (auto simp: bind_err_def split: sum.splits)
  from Cons.IH [OF ys'] obtain acc where acc: "length acc = length xs" "length ys' = length xs"
    "\<forall>i < length xs. fn (if i = 0 then v' else acc ! (i - 1)) (xs ! i) = Inr (acc ! i)
                       \<and> st (acc ! i) = Inr (ys' ! i)"
    by blast
  have "\<forall>i < length (x # xs).
          fn (if i = 0 then v else (v' # acc) ! (i - 1)) ((x # xs) ! i) = Inr ((v' # acc) ! i)
          \<and> st ((v' # acc) ! i) = Inr (ys ! i)"
  proof (intro allI impI)
    fix i assume i: "i < length (x # xs)"
    show "fn (if i = 0 then v else (v' # acc) ! (i - 1)) ((x # xs) ! i) = Inr ((v' # acc) ! i)
          \<and> st ((v' # acc) ! i) = Inr (ys ! i)"
    proof (cases i)
      case 0
      then show ?thesis using v' y ys by simp
    next
      case (Suc i')
      then have "i' < length xs" using i by simp
      with acc(3) have "fn (if i' = 0 then v' else acc ! (i' - 1)) (xs ! i') = Inr (acc ! i')
          \<and> st (acc ! i') = Inr (ys' ! i')" by blast
      then show ?thesis using Suc ys by (cases i') simp_all
    qed
  qed
  moreover have "length (v' # acc) = length (x # xs)" "length ys = length (x # xs)"
    using acc ys by simp_all
  ultimately show ?case by blast
qed

lemma scan_loop_total:
  assumes "\<forall>a b. \<exists>c. fn a b = Inr c" and "\<forall>u. \<exists>w. st u = Inr w"
  shows "\<exists>ys. scan_loop fn st v xs = Inr ys"
proof (induction xs arbitrary: v)
  case Nil
  then show ?case by simp
next
  case (Cons x xs)
  from assms(1) obtain v' where v': "fn v x = Inr v'" by blast
  from assms(2) obtain y where y: "st v' = Inr y" by blast
  from Cons [of v'] obtain ys where "scan_loop fn st v' xs = Inr ys" by blast
  with v' y show ?case by simp
qed

lemma scan_loop_length:
  "scan_loop fn st v xs = Inr ys \<Longrightarrow> length ys = length xs"
  using scan_loop_Inr [of fn st v xs ys] by blast

lemma array_scan_f_Inr:
  assumes "array_scan_f h fn init (VArray [n] l) = Inr r"
  shows "\<exists>ys. r = VArray [length l] ys \<and> l \<noteq> []
           \<and> scan_loop fn (np_store h (VArray [n] l)) init (map (\<lambda>e. VArray [] [e]) l) = Inr ys"
proof -
  from assms have l: "l \<noteq> []"
    by (auto simp: array_scan_f_def nditer_def split: if_splits)
  with assms obtain ys
    where ys: "scan_loop fn (np_store h (VArray [n] l)) init (map (\<lambda>e. VArray [] [e]) l) = Inr ys"
      and r: "r = VArray [length ys] ys"
    by (auto simp: array_scan_f_def nditer_def bind_err_def split: sum.splits)
  from scan_loop_length [OF ys] r l ys show ?thesis by simp
qed

lemma later_lanes_scan:
  "later_lanes h (array_scan_f h fn init) n [n] ls = Inr ds \<Longrightarrow>
   length ds = length ls \<and>
   (\<forall>m < length ls.
      scan_loop fn (np_store h (VArray [n] (ls ! m))) init (map (\<lambda>e. VArray [] [e]) (ls ! m))
        = Inr (ds ! m))"
proof (induction ls arbitrary: ds)
  case Nil
  then show ?case by simp
next
  case (Cons l ls)
  from Cons.prems obtain r where r: "array_scan_f h fn init (VArray [n] l) = Inr r"
    by (auto simp: bind_err_def split: sum.splits)
  from array_scan_f_Inr [OF r] obtain ys where ys: "r = VArray [length l] ys"
    "scan_loop fn (np_store h (VArray [n] l)) init (map (\<lambda>e. VArray [] [e]) l) = Inr ys"
    by blast
  from Cons.prems r ys obtain ds'
    where ds': "later_lanes h (array_scan_f h fn init) n [n] ls = Inr ds'"
      and ds: "ds = ys # ds'"
    by (auto simp: bind_err_def as_array_def split: sum.splits if_splits)
  note IH = Cons.IH [OF ds']
  show ?case
  proof (intro conjI allI impI)
    show "length ds = length (l # ls)" using IH ds by simp
  next
    fix m assume "m < length (l # ls)"
    then show "scan_loop fn (np_store h (VArray [n] ((l # ls) ! m))) init
                 (map (\<lambda>e. VArray [] [e]) ((l # ls) ! m)) = Inr (ds ! m)"
      using IH ds ys(2) by (cases m) auto
  qed
qed

lemma lanes_all_length:
  "\<forall>l \<in> set (lanes outer n inner d). length l = n"
  by (auto simp: in_set_conv_nth length_lane)

lemma shape_split:
  assumes "a < length shp"
  shows "take a shp @ [shp ! a] @ drop (Suc a) shp = shp"
  using assms by (simp add: id_take_nth_drop [symmetric])

lemma prod_shape_split:
  assumes "a < length (shp :: nat list)"
  shows "prod_list (take a shp) * (shp ! a * prod_list (drop (Suc a) shp)) = prod_list shp"
proof -
  have "prod_list shp = prod_list (take a shp @ [shp ! a] @ drop (Suc a) shp)"
    using shape_split [OF assms] by simp
  then show ?thesis by simp
qed

lemma apply_along_axis_scan:
  assumes "a < length shp"
    and "array_scan h fn init (VArray shp d) (VInt (int a)) = Inr r"
  shows "\<exists>R. length R = length (lanes (outer_size shp a) (shp ! a) (inner_size shp a) d)
          \<and> (\<forall>m < length R.
                scan_loop fn
                  (np_store h
                     (VArray [shp ! a]
                        (lanes (outer_size shp a) (shp ! a) (inner_size shp a) d ! m)))
                  init
                  (map (\<lambda>e. VArray [] [e])
                     (lanes (outer_size shp a) (shp ! a) (inner_size shp a) d ! m))
                  = Inr (R ! m))
          \<and> r = VArray shp (unlanes (outer_size shp a) (shp ! a) (inner_size shp a) R)"
proof -
  let ?n = "shp ! a" and ?L = "lanes (outer_size shp a) (shp ! a) (inner_size shp a) d"
  let ?scan = "\<lambda>l. scan_loop fn (np_store h (VArray [?n] l)) init (map (\<lambda>e. VArray [] [e]) l)"
  have ax: "normalize_axis_index (VInt (int a)) (length shp) = Inr a"
    using assms(1) by (simp add: normalize_axis_index_def)
  have unf: "array_scan h fn init (VArray shp d) (VInt (int a)) =
      (case ?L of
         [] \<Rightarrow> Inl ValueError
       | l0 # ls \<Rightarrow>
           bind_err (array_scan_f h fn init (VArray [?n] l0)) (\<lambda>r0.
           bind_err (as_array h r0) (\<lambda>(rshp, d0).
           bind_err (later_lanes h (array_scan_f h fn init) ?n rshp ls) (\<lambda>ds.
             Inr (VArray (take a shp @ rshp @ drop (Suc a) shp)
                    (unlanes (outer_size shp a) (prod_list rshp) (inner_size shp a) (d0 # ds)))))))"
    unfolding array_scan_def apply_along_axis_def outer_size_def inner_size_def
    by (simp add: as_array_def ax Let_def)
  from assms(2) unf obtain l0 ls where L: "?L = l0 # ls"
    by (cases ?L) auto
  have len0: "length l0 = ?n"
    using lanes_all_length [of "outer_size shp a" ?n "inner_size shp a" d] L by simp
  from assms(2) unf L obtain r0 where r0: "array_scan_f h fn init (VArray [?n] l0) = Inr r0"
    by (auto simp: bind_err_def split: sum.splits)
  from array_scan_f_Inr [OF r0] len0 obtain ys where ys: "r0 = VArray [?n] ys"
    "?scan l0 = Inr ys" by auto
  from assms(2) unf L r0 ys obtain ds
    where ds: "later_lanes h (array_scan_f h fn init) ?n [?n] ls = Inr ds"
      and r: "r = VArray (take a shp @ [?n] @ drop (Suc a) shp)
                    (unlanes (outer_size shp a) ?n (inner_size shp a) (ys # ds))"
    by (auto simp: bind_err_def as_array_def split: sum.splits)
  note later = later_lanes_scan [OF ds]
  have "\<forall>m < length (ys # ds). ?scan (?L ! m) = Inr ((ys # ds) ! m)"
  proof (intro allI impI)
    fix m assume "m < length (ys # ds)"
    then show "?scan (?L ! m) = Inr ((ys # ds) ! m)"
      using later ys(2) L by (cases m) auto
  qed
  moreover have "length (ys # ds) = length ?L" using later L by simp
  moreover have "r = VArray shp (unlanes (outer_size shp a) ?n (inner_size shp a) (ys # ds))"
    using r shape_split [OF assms(1)] by simp
  ultimately show ?thesis by blast
qed

lemma array_scan_recurrence:
  assumes "a < length shp"
    and "array_scan h fn init (VArray shp d) (VInt (int a)) = Inr r"
  shows "\<exists>out. r = VArray shp out \<and> length out = prod_list shp \<and>
           (\<forall>q < outer_size shp a. \<forall>j < inner_size shp a.
              \<exists>acc. length acc = shp ! a \<and>
                (\<forall>i < shp ! a.
                   fn (if i = 0 then init else acc ! (i - 1))
                      (VArray [] [d ! flat_index shp a q i j])
                     = Inr (acc ! i)
                   \<and> np_store h (lane shp a d q j) (acc ! i)
                       = Inr (out ! flat_index shp a q i j)))"
proof -
  let ?n = "shp ! a" and ?o = "outer_size shp a" and ?i = "inner_size shp a"
  let ?L = "lanes ?o ?n ?i d"
  from apply_along_axis_scan [OF assms] obtain R where
    lenR: "length R = length ?L"
    and R: "\<forall>m < length R.
              scan_loop fn (np_store h (VArray [?n] (?L ! m))) init
                (map (\<lambda>e. VArray [] [e]) (?L ! m)) = Inr (R ! m)"
    and r: "r = VArray shp (unlanes ?o ?n ?i R)" by blast
  let ?out = "unlanes ?o ?n ?i R"
  have len: "length ?out = prod_list shp"
    using prod_shape_split [OF assms(1)]
    by (simp add: length_unlanes outer_size_def inner_size_def)
  have rec: "\<exists>acc. length acc = ?n \<and>
                (\<forall>i < ?n.
                   fn (if i = 0 then init else acc ! (i - 1))
                      (VArray [] [d ! flat_index shp a q i j])
                     = Inr (acc ! i)
                   \<and> np_store h (lane shp a d q j) (acc ! i)
                       = Inr (?out ! flat_index shp a q i j))"
    if q: "q < ?o" and j: "j < ?i" for q j
  proof -
    let ?m = "q * ?i + j"
    have "Suc q * ?i \<le> ?o * ?i" using q by (intro mult_le_mono1) simp
    then have m: "?m < length R" using j lenR by (simp add: length_lanes)
    have lane_m: "?L ! ?m = map (\<lambda>i. d ! flat_index shp a q i j) [0..<?n]"
      using nth_lanes [OF q j] by (simp add: flat_index_def)
    then have lane_eq: "VArray [?n] (?L ! ?m) = lane shp a d q j"
      by (simp add: lane_def)
    from R m have "scan_loop fn (np_store h (VArray [?n] (?L ! ?m))) init
                (map (\<lambda>e. VArray [] [e]) (?L ! ?m)) = Inr (R ! ?m)" by blast
    from scan_loop_Inr [OF this] obtain acc where
      la: "length acc = length (map (\<lambda>e. VArray [] [e]) (?L ! ?m))"
      and st: "\<forall>i < length (map (\<lambda>e. VArray [] [e]) (?L ! ?m)).
                 fn (if i = 0 then init else acc ! (i - 1))
                    (map (\<lambda>e. VArray [] [e]) (?L ! ?m) ! i) = Inr (acc ! i)
                 \<and> np_store h (VArray [?n] (?L ! ?m)) (acc ! i) = Inr (R ! ?m ! i)"
      by blast
    have ln: "length (map (\<lambda>e. VArray [] [e]) (?L ! ?m)) = ?n"
      using lane_m by simp
    have step: "fn (if i = 0 then init else acc ! (i - 1)) (VArray [] [d ! flat_index shp a q i j])
            = Inr (acc ! i)
          \<and> np_store h (lane shp a d q j) (acc ! i) = Inr (?out ! flat_index shp a q i j)"
      if i: "i < ?n" for i
    proof -
      have view: "map (\<lambda>e. VArray [] [e]) (?L ! ?m) ! i = VArray [] [d ! flat_index shp a q i j]"
        using i lane_m by simp
      have out_i: "?out ! flat_index shp a q i j = R ! ?m ! i"
        unfolding flat_index_def by (rule nth_unlanes [OF q i j])
      from st i ln have "fn (if i = 0 then init else acc ! (i - 1))
                    (map (\<lambda>e. VArray [] [e]) (?L ! ?m) ! i) = Inr (acc ! i)
                 \<and> np_store h (VArray [?n] (?L ! ?m)) (acc ! i) = Inr (R ! ?m ! i)"
        by simp
      then show ?thesis
        unfolding view lane_eq out_i .
    qed
    from la ln have "length acc = ?n" by simp
    with step show ?thesis by blast
  qed
  show ?thesis
    using r len rec by blast
qed

lemma later_lanes_total:
  assumes "\<forall>a b. \<exists>c. fn a b = Inr c" and "\<forall>l u. \<exists>w. np_store h l u = Inr w"
  shows "\<forall>l \<in> set ls. length l = n \<and> l \<noteq> [] \<Longrightarrow>
         \<exists>ds. later_lanes h (array_scan_f h fn init) n [n] ls = Inr ds"
proof (induction ls)
  case Nil
  then show ?case by simp
next
  case (Cons l ls)
  have "\<forall>u. \<exists>w. np_store h (VArray [n] l) u = Inr w" using assms(2) by blast
  from scan_loop_total [OF assms(1) this, of init "map (\<lambda>e. VArray [] [e]) l"] obtain ys
    where ys: "scan_loop fn (np_store h (VArray [n] l)) init (map (\<lambda>e. VArray [] [e]) l) = Inr ys"
    by blast
  from scan_loop_length [OF ys] have len: "length ys = length l" by simp
  have f: "array_scan_f h fn init (VArray [n] l) = Inr (VArray [n] ys)"
    using ys len Cons.prems by (simp add: array_scan_f_def nditer_def)
  from Cons obtain ds where "later_lanes h (array_scan_f h fn init) n [n] ls = Inr ds"
    by auto
  then show ?case
    using f by (simp add: as_array_def)
qed

lemma array_scan_returns:
  assumes "a < length shp" and "0 \<notin> set shp" and "\<forall>x y. \<exists>z. fn x y = Inr z"
    and "\<forall>l u. \<exists>w. np_store h l u = Inr w"
  shows "\<exists>out. array_scan h fn init (VArray shp d) (VInt (int a)) = Inr (VArray shp out)"
proof -
  let ?n = "shp ! a" and ?L = "lanes (outer_size shp a) (shp ! a) (inner_size shp a) d"
  have ax: "normalize_axis_index (VInt (int a)) (length shp) = Inr a"
    using assms(1) by (simp add: normalize_axis_index_def)
  have n: "0 < ?n" using assms(1,2) by (metis nth_mem not_gr_zero)
  have "0 \<notin> set (take a shp)" "0 \<notin> set (drop (Suc a) shp)"
    using assms(2) by (auto dest: in_set_takeD in_set_dropD)
  then have "outer_size shp a \<noteq> 0" "inner_size shp a \<noteq> 0"
    by (simp_all add: outer_size_def inner_size_def prod_list_zero_iff)
  then have "0 < outer_size shp a * inner_size shp a"
    by simp
  then have "?L \<noteq> []" using length_lanes [of "outer_size shp a" ?n "inner_size shp a" d]
    by auto
  then obtain l0 ls where L: "?L = l0 # ls" by (cases ?L) auto
  have all: "\<forall>l \<in> set (l0 # ls). length l = ?n \<and> l \<noteq> []"
    using lanes_all_length [of "outer_size shp a" ?n "inner_size shp a" d] L n by auto
  have "\<forall>u. \<exists>w. np_store h (VArray [?n] l0) u = Inr w" using assms(4) by blast
  from scan_loop_total [OF assms(3) this, of init "map (\<lambda>e. VArray [] [e]) l0"] obtain ys
    where ys: "scan_loop fn (np_store h (VArray [?n] l0)) init (map (\<lambda>e. VArray [] [e]) l0)
                 = Inr ys" by blast
  from scan_loop_length [OF ys] all have lys: "length ys = ?n" by simp
  from later_lanes_total [OF assms(3,4), of ls ?n init] all obtain ds
    where ds: "later_lanes h (array_scan_f h fn init) ?n [?n] ls = Inr ds" by auto
  have f0: "array_scan_f h fn init (VArray [?n] l0) = Inr (VArray [?n] ys)"
    using ys lys all by (simp add: array_scan_f_def nditer_def)
  have "array_scan h fn init (VArray shp d) (VInt (int a)) =
          Inr (VArray (take a shp @ [?n] @ drop (Suc a) shp)
                 (unlanes (outer_size shp a) ?n (inner_size shp a) (ys # ds)))"
    using L f0 ds
    unfolding array_scan_def apply_along_axis_def outer_size_def inner_size_def
    by (simp add: as_array_def ax Let_def)
  then show ?thesis using shape_split [OF assms(1)] by simp
qed

lemma array_scan_unfold_1d:
  "array_scan h fn init (VArray [3] [x1, x2, x3]) (VInt 0) =
     bind_err (array_scan_f h fn init (VArray [3] [x1, x2, x3])) (\<lambda>r0.
     bind_err (as_array h r0) (\<lambda>(rshp, d0).
       Inr (VArray rshp (unlanes 1 (prod_list rshp) 1 [d0]))))"
  by (simp add: array_scan_def apply_along_axis_def as_array_def normalize_axis_index_def
      lanes_def upt_rec numeral_3_eq_3 Let_def)

lemma unlanes_1d: "length ys = m \<Longrightarrow> unlanes (Suc 0) m (Suc 0) [ys] = ys"
  by (auto simp: unlanes_def concat_map_singleton map_nth)

lemma array_scan_example:
  "array_scan numpy_host (\<lambda>x y. py_binop numpy_host Add x y) (VInt 0)
     (VArray [3] [VInt 1, VInt 2, VInt 3]) (VInt 0)
     = Inr (VArray [3] [VInt 1, VInt 3, VInt 6])"
  by (simp add: array_scan_unfold_1d array_scan_f_def nditer_def py_binop_def numpy_host_def
      null_host_def np_int64_def float_half_def as_array_def unlanes_1d)

text \<open>
  With \<^verbatim>\<open>scalar_add\<close> as the function the second step raises: the accumulator
  is then a \<^verbatim>\<open>numpy\<close> integer, which \<^verbatim>\<open>_assert_scalar\<close> refuses.
\<close>

lemma array_scan_scalar_add:
  "array_scan numpy_host (scalar_add numpy_host) (VInt 0)
     (VArray [3] [VInt 1, VInt 2, VInt 3]) (VInt 0) = Inl TypeError"
  by (simp add: array_scan_unfold_1d array_scan_f_def nditer_def scalar_add_def py_binop_def
      numpy_host_def null_host_def np_int64_def float_half_def)

lemma array_scan_const_half:
  "array_scan numpy_host const_half (VInt 0) (VArray [3] [VInt 1, VInt 2, VInt 3]) (VInt 0)
     = Inr (VArray [3] [VInt 0, VInt 0, VInt 0])"
  by (simp add: array_scan_unfold_1d array_scan_f_def nditer_def const_half_def
      numpy_host_def null_host_def as_array_def unlanes_1d)

lemma array_scan_plain_store:
  assumes "a < length shp" and "\<forall>l u. np_store h l u = Inr u"
    and "array_scan h fn init (VArray shp d) (VInt (int a)) = Inr r"
  shows "\<exists>out. r = VArray shp out \<and>
           (\<forall>q < outer_size shp a. \<forall>j < inner_size shp a. \<forall>i < shp ! a.
              fn (if i = 0 then init else out ! flat_index shp a q (i - 1) j)
                 (VArray [] [d ! flat_index shp a q i j])
                = Inr (out ! flat_index shp a q i j))"
proof -
  from array_scan_recurrence [OF assms(1,3)] obtain out where r: "r = VArray shp out"
    and rec: "\<forall>q < outer_size shp a. \<forall>j < inner_size shp a.
              \<exists>acc. length acc = shp ! a \<and>
                (\<forall>i < shp ! a.
                   fn (if i = 0 then init else acc ! (i - 1))
                      (VArray [] [d ! flat_index shp a q i j])
                     = Inr (acc ! i)
                   \<and> np_store h (lane shp a d q j) (acc ! i)
                       = Inr (out ! flat_index shp a q i j))"
    by blast
  have "fn (if i = 0 then init else out ! flat_index shp a q (i - 1) j)
                 (VArray [] [d ! flat_index shp a q i j])
                = Inr (out ! flat_index shp a q i j)"
    if q: "q < outer_size shp a" and j: "j < inner_size shp a" and i: "i < shp ! a" for q j i
  proof -
    from rec q j obtain acc where
      acc: "\<forall>i < shp ! a.
                   fn (if i = 0 then init else acc ! (i - 1))
                      (VArray [] [d ! flat_index shp a q i j])
                     = Inr (acc ! i)
                   \<and> np_store h (lane shp a d q j) (acc ! i)
                       = Inr (out ! flat_index shp a q i j)"
      by blast
    have same: "acc ! k = out ! flat_index shp a q k j" if "k < shp ! a" for k
    proof -
      from acc that have "np_store h (lane shp a d q j) (acc ! k)
                       = Inr (out ! flat_index shp a q k j)" by blast
      then show ?thesis using assms(2) by simp
    qed
    have p: "i - 1 < shp ! a" using i by arith
    from acc i have "fn (if i = 0 then init else acc ! (i - 1))
                      (VArray [] [d ! flat_index shp a q i j]) = Inr (acc ! i)" by blast
    then show ?thesis unfolding same [OF i] same [OF p] .
  qed
  with r show ?thesis by blast
qed

text \<open>
  C2, as the code has it. When \<^verbatim>\<open>array_scan(fn, init, array, axis)\<close> returns, its
  result has the shape of \<open>array\<close>, and on every lane along the axis there are
  accumulators with \<open>acc[0] = fn(init, array[0])\<close> and
  \<open>acc[i] = fn(acc[i - 1], array[i])\<close>, where \<open>fn\<close> receives the element as an array of
  shape \<^verbatim>\<open>()\<close>, and the output at position \<open>i\<close> is \<open>acc[i]\<close> as it is stored into an
  array of the element type of \<open>array\<close>. It returns whenever neither \<open>fn\<close> nor the
  storing raises and no dimension of the array is \<open>0\<close>. Where storing changes
  nothing the output at position \<open>0\<close> is \<open>fn(init, array[0])\<close> and the output at
  position \<open>i > 0\<close> is \<open>fn(output[i - 1], array[i])\<close>. On \<open>[1, 2, 3]\<close> with \<open>init = 0\<close>,
  addition and axis \<open>0\<close> the result is \<open>[1, 3, 6]\<close>.
\<close>

theorem array_scan_inclusive:
  "(a < length shp \<and> array_scan h fn init (VArray shp d) (VInt (int a)) = Inr r \<longrightarrow>
      (\<exists>out. r = VArray shp out \<and> length out = prod_list shp \<and>
         (\<forall>q < outer_size shp a. \<forall>j < inner_size shp a.
            \<exists>acc. length acc = shp ! a \<and>
              (\<forall>i < shp ! a.
                 fn (if i = 0 then init else acc ! (i - 1))
                    (VArray [] [d ! flat_index shp a q i j])
                   = Inr (acc ! i)
                 \<and> np_store h (lane shp a d q j) (acc ! i)
                     = Inr (out ! flat_index shp a q i j)))))
   \<and> (a < length shp \<and> 0 \<notin> set shp \<and> (\<forall>x y. \<exists>z. fn x y = Inr z)
        \<and> (\<forall>l u. \<exists>w. np_store h l u = Inr w) \<longrightarrow>
        (\<exists>out. array_scan h fn init (VArray shp d) (VInt (int a)) = Inr (VArray shp out)))
   \<and> (a < length shp \<and> (\<forall>l u. np_store h l u = Inr u)
        \<and> array_scan h fn init (VArray shp d) (VInt (int a)) = Inr r \<longrightarrow>
        (\<exists>out. r = VArray shp out \<and>
           (\<forall>q < outer_size shp a. \<forall>j < inner_size shp a. \<forall>i < shp ! a.
              fn (if i = 0 then init else out ! flat_index shp a q (i - 1) j)
                 (VArray [] [d ! flat_index shp a q i j])
                = Inr (out ! flat_index shp a q i j))))
   \<and> array_scan numpy_host (\<lambda>x y. py_binop numpy_host Add x y) (VInt 0)
        (VArray [3] [VInt 1, VInt 2, VInt 3]) (VInt 0)
      = Inr (VArray [3] [VInt 1, VInt 3, VInt 6])"
proof -
  have p1: "a < length shp \<and> array_scan h fn init (VArray shp d) (VInt (int a)) = Inr r \<longrightarrow>
      (\<exists>out. r = VArray shp out \<and> length out = prod_list shp \<and>
         (\<forall>q < outer_size shp a. \<forall>j < inner_size shp a.
            \<exists>acc. length acc = shp ! a \<and>
              (\<forall>i < shp ! a.
                 fn (if i = 0 then init else acc ! (i - 1))
                    (VArray [] [d ! flat_index shp a q i j])
                   = Inr (acc ! i)
                 \<and> np_store h (lane shp a d q j) (acc ! i)
                     = Inr (out ! flat_index shp a q i j))))"
    using array_scan_recurrence [of a shp h fn init d r] by blast
  have p2: "a < length shp \<and> 0 \<notin> set shp \<and> (\<forall>x y. \<exists>z. fn x y = Inr z)
        \<and> (\<forall>l u. \<exists>w. np_store h l u = Inr w) \<longrightarrow>
        (\<exists>out. array_scan h fn init (VArray shp d) (VInt (int a)) = Inr (VArray shp out))"
    using array_scan_returns [of a shp fn h init d] by blast
  have p3: "a < length shp \<and> (\<forall>l u. np_store h l u = Inr u)
        \<and> array_scan h fn init (VArray shp d) (VInt (int a)) = Inr r \<longrightarrow>
        (\<exists>out. r = VArray shp out \<and>
           (\<forall>q < outer_size shp a. \<forall>j < inner_size shp a. \<forall>i < shp ! a.
              fn (if i = 0 then init else out ! flat_index shp a q (i - 1) j)
                 (VArray [] [d ! flat_index shp a q i j])
                = Inr (out ! flat_index shp a q i j)))"
    using array_scan_plain_store [of a shp h fn init d r] by blast
  show ?thesis
    by (rule conjI [OF p1 conjI [OF p2 conjI [OF p3 array_scan_example]]])
qed

theorem array_scan_inclusive_witness:
  "array_scan numpy_host (\<lambda>x y. py_binop numpy_host Add x y) (VInt 0)
     (VArray [3] [VInt 1, VInt 2, VInt 3]) (VInt 0)
     = Inr (VArray [3] [VInt 1, VInt 3, VInt 6])
   \<and> py_binop numpy_host Add (VInt 0) (VArray [] [VInt 1]) = Inr (np_int64 1)
   \<and> np_store numpy_host (VArray [3] [VInt 1, VInt 2, VInt 3]) (np_int64 1) = Inr (VInt 1)
   \<and> py_binop numpy_host Add (np_int64 1) (VArray [] [VInt 2]) = Inr (np_int64 3)
   \<and> np_store numpy_host (VArray [3] [VInt 1, VInt 2, VInt 3]) (np_int64 3) = Inr (VInt 3)"
  using array_scan_inclusive [of 0 "[3]" numpy_host "\<lambda>x y. py_binop numpy_host Add x y" "VInt 0"
      "[VInt 1, VInt 2, VInt 3]" "VArray [3] [VInt 1, VInt 3, VInt 6]"]
  by (simp add: py_binop_def numpy_host_def null_host_def np_int64_def float_half_def)

text \<open>
  With the function that returns the float \<open>0.5\<close> on an array of integers: the
  output at position \<open>0\<close> is the integer \<open>0\<close>, and \<open>fn(init, array[0])\<close> is \<open>0.5\<close>.
\<close>

theorem array_scan_store_counterexample:
  "array_scan numpy_host const_half (VInt 0) (VArray [3] [VInt 1, VInt 2, VInt 3]) (VInt 0)
     = Inr (VArray [3] [VInt 0, VInt 0, VInt 0])
   \<and> const_half (VInt 0) (VArray [] [VInt 1]) = Inr float_half
   \<and> float_half \<noteq> VInt 0"
  using array_scan_const_half by (simp add: const_half_def float_half_def)

end
